theory Spec2Isabelle
  imports Complex_Main
begin

section \<open>Data model of \<open>prototype_anc_samp_minimal.py\<close>\<close>

text \<open>
  Python integers are modelled as \<open>int\<close>, the float columns (\<open>generation\<close>, \<open>left\<close>,
  \<open>right\<close>, table times, the draws of \<open>random_sample\<close>) as \<open>real\<close>: every time the
  driver writes is an integral generation count, which a double holds exactly.
  An exception of the source is a value \<open>Inl e\<close>; no exception is ever caught in the
  source, so the state at the moment of the raise is not observable and is not kept.
\<close>

datatype error = ZeroDivisionError | ValueError | IndexError | TypeError | OverflowError | LibraryError

text \<open>
  The element types of the integer arrays of the source. \<open>wrap_uint32\<close> and
  \<open>wrap_int32\<close> are the values that the low 32 bits of an integer stand for in
  \<open>np.uint32\<close> and \<open>np.int32\<close>: what arithmetic inside such an array and a cast
  of a 64-bit array to it (\<open>astype\<close>, done by \<open>np.insert\<close>) leave.
\<close>

datatype dtype = UInt32 | Int32 | Float64

definition wrap_uint32 :: "int \<Rightarrow> int" where
  "wrap_uint32 x = x mod 2 ^ 32"

definition wrap_int32 :: "int \<Rightarrow> int" where
  "wrap_int32 x = (x + 2 ^ 31) mod 2 ^ 32 - 2 ^ 31"

text \<open>
  The store of a Python integer into an element of type \<open>np.uint32\<close> or
  \<open>np.int32\<close> (numpy before 1.24, the releases that still have \<open>np.float\<close>): the
  integer is converted to a C \<open>unsigned long\<close>, or failing that to a C \<open>long\<close>,
  for \<open>np.uint32\<close>, and to a C \<open>long\<close> for \<open>np.int32\<close> (64 bits); a value
  that does not fit raises \<open>OverflowError\<close>, one that fits is truncated to its low
  32 bits without a check.
\<close>

definition as_uint32 :: "int \<Rightarrow> error + int" where
  "as_uint32 x = (if - (2 ^ 63) \<le> x \<and> x < 2 ^ 64 then Inr (wrap_uint32 x) else Inl OverflowError)"

definition as_int32 :: "int \<Rightarrow> error + int" where
  "as_int32 x = (if - (2 ^ 63) \<le> x \<and> x < 2 ^ 63 then Inr (wrap_int32 x) else Inl OverflowError)"

text \<open>
  The cast of an integer array (64 bits, as \<open>np.concatenate\<close> of the sums of
  \<open>ran_samples\<close> gives) to an element type; a double holds the ids exactly.
\<close>

definition astype :: "dtype \<Rightarrow> int \<Rightarrow> int" where
  "astype dt x = (case dt of UInt32 \<Rightarrow> wrap_uint32 x | Int32 \<Rightarrow> wrap_int32 x | Float64 \<Rightarrow> x)"

text \<open>
  \<open>array + k\<close> for a Python integer \<open>k\<close>, on one element \<open>x\<close> of the array.
  The sum is taken in the element type of the array, wrapping, when \<open>k\<close> fits that
  type; otherwise numpy promotes to a 64-bit type (or to objects), where the sum is
  the sum of the integers.
\<close>

definition np_add :: "dtype \<Rightarrow> int \<Rightarrow> int \<Rightarrow> int" where
  "np_add dt k x =
     (case dt of
        UInt32 \<Rightarrow> if 0 \<le> k \<and> k < 2 ^ 32 then wrap_uint32 (x + k) else x + k
      | Int32 \<Rightarrow> if - (2 ^ 31) \<le> k \<and> k < 2 ^ 31 then wrap_int32 (x + k) else x + k
      | Float64 \<Rightarrow> x + k)"

text \<open>\<open>node_dt\<close> and \<open>edge_dt\<close>.\<close>

record node =
  id_n :: int
  generation :: real
  population :: int

record edge =
  left :: real
  right :: real
  parent :: int
  child :: int

text \<open>
  \<open>MockAncestryTracker\<close>. \<open>samples\<close> is always an array of \<open>np.uint32\<close> (it
  starts as one and is only ever replaced by \<open>diploids\<close>). \<open>anc_samples\<close> starts
  as an array of \<open>np.uint32\<close>; a compaction replaces it by \<open>np.array\<close> of a list
  of entries of the node map, which is an array of \<open>np.int32\<close>, or of
  \<open>np.float64\<close> when the list is empty: \<open>anc_dtype\<close> is its element type.
\<close>

record tracker =
  nodes :: "node list"
  edges :: "edge list"
  samples :: "int list"
  anc_samples :: "int list"
  anc_dtype :: dtype

definition init_tracker :: tracker where
  "init_tracker = \<lparr>nodes = [], edges = [], samples = [], anc_samples = [], anc_dtype = UInt32\<rparr>"

text \<open>
  The conversion of the list of edge tuples to an array of \<open>edge_dt\<close>, whose
  \<open>parent\<close> and \<open>child\<close> are \<open>np.int32\<close>: tuple by tuple, field by field.
\<close>

definition as_edge_dt :: "edge \<Rightarrow> error + edge" where
  "as_edge_dt e =
     (case as_int32 (parent e) of
        Inl x \<Rightarrow> Inl x
      | Inr p \<Rightarrow> (case as_int32 (child e) of
                    Inl x \<Rightarrow> Inl x
                  | Inr c \<Rightarrow> Inr (e\<lparr>parent := p, child := c\<rparr>)))"

fun as_edge_array :: "edge list \<Rightarrow> error + edge list" where
  "as_edge_array [] = Inr []"
| "as_edge_array (e # es) =
     (case as_edge_dt e of
        Inl x \<Rightarrow> Inl x
      | Inr e' \<Rightarrow> (case as_edge_array es of Inl x \<Rightarrow> Inl x | Inr es' \<Rightarrow> Inr (e' # es')))"

text \<open>
  \<open>update_data\<close>: \<open>np.insert\<close> at the end appends, after converting what it
  appends to the element type of the array it appends to. The nodes are an array of
  \<open>node_dt\<close> already; the edges are a list of tuples; the new ancestral samples
  are the empty list or an integer array.
\<close>

definition update_data :: "tracker \<Rightarrow> node list \<Rightarrow> edge list \<Rightarrow> int list \<Rightarrow> int list \<Rightarrow> error + tracker" where
  "update_data tr new_nodes new_edges new_samples new_anc_samples =
     (case as_edge_array new_edges of
        Inl e \<Rightarrow> Inl e
      | Inr es \<Rightarrow>
          Inr (tr\<lparr>nodes := nodes tr @ new_nodes,
                  edges := edges tr @ es,
                  samples := new_samples,
                  anc_samples := anc_samples tr @ map (astype (anc_dtype tr)) new_anc_samples\<rparr>))"

text \<open>\<open>ndarray.max()\<close> raises \<open>ValueError\<close> on an array of size zero.\<close>

fun amax :: "real list \<Rightarrow> error + real" where
  "amax [] = Inl ValueError"
| "amax (x # xs) = Inr (fold max xs x)"

text \<open>
  \<open>convert_time\<close>: subtract the maximum in place, then multiply by \<open>-1.0\<close>.
\<close>

definition convert_time :: "tracker \<Rightarrow> error + tracker" where
  "convert_time tr =
     (case amax (map generation (nodes tr)) of
        Inl e \<Rightarrow> Inl e
      | Inr m \<Rightarrow>
          Inr (tr\<lparr>nodes := map (\<lambda>n. n\<lparr>generation := (generation n - m) * (- 1)\<rparr>) (nodes tr)\<rparr>))"

definition reset_data :: "tracker \<Rightarrow> tracker" where
  "reset_data tr = tr\<lparr>nodes := [], edges := []\<rparr>"

text \<open>
  \<open>post_gc_cleanup\<close>: \<open>gc_rv\<close> is the pair returned by \<open>ARGsimplifier.__call__\<close>,
  \<open>(True, next_id)\<close> or \<open>(False, None)\<close>.
\<close>

definition post_gc_cleanup :: "tracker \<Rightarrow> bool \<times> int option \<Rightarrow> tracker" where
  "post_gc_cleanup tr gc_rv = (if fst gc_rv then reset_data tr else tr)"

section \<open>The global tables and the compaction\<close>

text \<open>
  A row of msprime's \<open>NodeTable\<close> as the source uses it (flags, population, time); a
  row of the \<open>EdgeTable\<close> is an \<open>edge\<close>. The table methods \<open>set_columns\<close>,
  \<open>append_columns\<close> and \<open>num_rows\<close> are the list operations they stand for.
\<close>

record node_row =
  flags :: int
  pop :: int
  time :: real

type_synonym tables = "node_row list \<times> edge list"

text \<open>The command line: \<open>--popsize\<close>, \<open>--nsam\<close>, \<open>--seed\<close>, \<open>--gc\<close>.\<close>

record args =
  popsize :: int
  nsam :: int
  seed :: int
  gc :: int

text \<open>
  msprime is an external library. Its three entry points are parameters of the model:
  \<open>simulate\<close> (sample size, \<open>Ne\<close>, seed; followed by \<open>dump_tables\<close>),
  \<open>sort_tables\<close>, and \<open>simplify_tables\<close>, which takes the sample list and the
  tables and returns the reduced tables and the node map (\<open>-1\<close> is msprime's null
  node). Each may raise.
\<close>

record msprime =
  simulate :: "int \<Rightarrow> int \<Rightarrow> int \<Rightarrow> error + tables"
  sort_tables :: "tables \<Rightarrow> error + tables"
  simplify_tables :: "int list \<Rightarrow> tables \<Rightarrow> error + (tables \<times> int list)"

text \<open>\<open>ARGsimplifier\<close>: the tables, the interval and the time of the last compaction.\<close>

record simplifier =
  table_nodes :: "node_row list"
  table_edges :: "edge list"
  gc_interval :: int
  last_gc_time :: int

definition init_simplifier :: "int \<Rightarrow> simplifier" where
  "init_simplifier gc_interval' =
     \<lparr>table_nodes = [], table_edges = [], gc_interval = gc_interval', last_gc_time = 0\<rparr>"

text \<open>
  Indexing a one-dimensional numpy array with an integer: a negative index counts
  from the end, an index out of range raises \<open>IndexError\<close>.
\<close>

definition np_index :: "'a list \<Rightarrow> int \<Rightarrow> error + 'a" where
  "np_index xs i =
     (let n = int (length xs); j = (if i < 0 then i + n else i)
      in if 0 \<le> j \<and> j < n then Inr (xs ! nat j) else Inl IndexError)"

text \<open>\<open>[node_map[int(node_id)] for node_id in tracker.anc_samples]\<close>\<close>

fun lookup_all :: "int list \<Rightarrow> int list \<Rightarrow> error + int list" where
  "lookup_all node_map [] = Inr []"
| "lookup_all node_map (node_id # rest) =
     (case np_index node_map node_id of
        Inl e \<Rightarrow> Inl e
      | Inr v \<Rightarrow> (case lookup_all node_map rest of Inl e \<Rightarrow> Inl e | Inr vs \<Rightarrow> Inr (v # vs)))"

text \<open>
  \<open>sorted(set((anc_samples + node_offset).tolist() + (samples + node_offset).tolist()),
  reverse=True)\<close>
\<close>

definition all_samples :: "dtype \<Rightarrow> int list \<Rightarrow> int list \<Rightarrow> int \<Rightarrow> int list" where
  "all_samples dt anc samp node_offset =
     rev (sort (remdups (map (np_add dt node_offset) anc @ map (np_add UInt32 node_offset) samp)))"

text \<open>
  The first part of \<open>simplify\<close>: at generation 1 the tables are replaced by the
  coalescent prior and its times moved by the generation; otherwise the times of the
  tables are moved by the time since the last compaction. The result is the tables
  and \<open>node_offset\<close>.
\<close>

definition seed_or_age :: "msprime \<Rightarrow> args \<Rightarrow> simplifier \<Rightarrow> int \<Rightarrow> error + (node_row list \<times> edge list \<times> int)" where
  "seed_or_age ms a s g =
     (if g = 1 then
        (case simulate ms (2 * popsize a) (2 * popsize a) (seed a) of
           Inl e \<Rightarrow> Inl e
         | Inr (pn, pe) \<Rightarrow>
             Inr (map (\<lambda>r. r\<lparr>time := time r + real_of_int g\<rparr>) pn, pe,
                  int (length pn) - 2 * popsize a))
      else
        (let dt = g - last_gc_time s
         in Inr (map (\<lambda>r. r\<lparr>time := time r + real_of_int dt\<rparr>) (table_nodes s),
                 table_edges s, 0)))"

text \<open>
  \<open>ARGsimplifier.simplify\<close>. It returns the simplifier, the tracker (both are
  mutated in the source) and the number of rows of the node table. The sum
  \<open>tracker.edges['child'] + node_offset\<close> is taken in the column's type
  \<open>np.int32\<close>, the sums of the sample arrays in theirs.
\<close>

definition simplify :: "msprime \<Rightarrow> args \<Rightarrow> simplifier \<Rightarrow> int \<Rightarrow> tracker \<Rightarrow> error + (simplifier \<times> tracker \<times> int)" where
  "simplify ms a s g tr =
     (case seed_or_age ms a s g of
        Inl e \<Rightarrow> Inl e
      | Inr (ns, es, node_offset) \<Rightarrow>
     (case convert_time tr of
        Inl e \<Rightarrow> Inl e
      | Inr tr1 \<Rightarrow>
     (case sort_tables ms
             (ns @ map (\<lambda>n. \<lparr>flags = 1, pop = population n, time = generation n\<rparr>) (nodes tr1),
              es @ map (\<lambda>e. e\<lparr>child := np_add Int32 node_offset (child e)\<rparr>) (edges tr1)) of
        Inl e \<Rightarrow> Inl e
      | Inr sorted_tabs \<Rightarrow>
     (case simplify_tables ms
             (all_samples (anc_dtype tr1) (anc_samples tr1) (samples tr1) node_offset) sorted_tabs of
        Inl e \<Rightarrow> Inl e
      | Inr ((ns', es'), node_map) \<Rightarrow>
     (case lookup_all node_map (anc_samples tr1) of
        Inl e \<Rightarrow> Inl e
      | Inr anc' \<Rightarrow>
          Inr (s\<lparr>table_nodes := ns', table_edges := es'\<rparr>,
               tr1\<lparr>anc_samples := anc', anc_dtype := (if anc' = [] then Float64 else Int32)\<rparr>,
               int (length ns')))))))"

text \<open>
  \<open>ARGsimplifier.__call__\<close>. Python evaluates \<open>generation % self.gc_interval\<close>
  before \<open>generation == 1\<close>, and \<open>%\<close> by zero raises \<open>ZeroDivisionError\<close>; for a
  divisor that is not zero \<open>%\<close> is \<open>mod\<close> on \<open>int\<close> (the sign of the divisor).
\<close>

definition call :: "msprime \<Rightarrow> args \<Rightarrow> simplifier \<Rightarrow> int \<Rightarrow> tracker \<Rightarrow> error + (simplifier \<times> tracker \<times> bool \<times> int option)" where
  "call ms a s g tr =
     (if g > 0 then
        (if gc_interval s = 0 then Inl ZeroDivisionError
         else if g mod gc_interval s = 0 \<or> g = 1 then
           (case simplify ms a s g tr of
              Inl e \<Rightarrow> Inl e
            | Inr (s', tr', next_id) \<Rightarrow> Inr (s'\<lparr>last_gc_time := g\<rparr>, tr', (True, Some next_id)))
         else Inr (s, tr, (False, None)))
      else Inr (s, tr, (False, None)))"

section \<open>The driver\<close>

text \<open>
  \<open>np.random\<close> is an external library with hidden state. What its three entry
  points return in one generation is a parameter of the model: \<open>choice\<close> takes the
  population size and the sample size (\<open>replace=False\<close>), \<open>randint\<close> takes
  \<open>low\<close>, \<open>high\<close> and \<open>size\<close>, and \<open>random_sample\<close> gives the pair drawn for
  the offspring with the given index. \<open>choice\<close> and \<open>randint\<close> may raise.
\<close>

record np_random =
  choice :: "int \<Rightarrow> int \<Rightarrow> error + int list"
  randint :: "int \<Rightarrow> int \<Rightarrow> int \<Rightarrow> error + int list"
  random_sample :: "nat \<Rightarrow> real \<times> real"

text \<open>
  \<open>np.arange(start, stop, dtype=np.uint32)\<close>: numpy stores \<open>start\<close> and
  \<open>start + 1\<close> as the first two elements (when there are that many) and fills
  the rest by adding their difference, one, in \<open>np.uint32\<close>.
\<close>

definition arange_uint32 :: "int \<Rightarrow> int \<Rightarrow> error + int list" where
  "arange_uint32 start stop =
     (if stop - start \<le> 0 then Inr []
      else (case as_uint32 start of
              Inl e \<Rightarrow> Inl e
            | Inr first \<Rightarrow>
                (if stop - start < 2 then Inr [first]
                 else (case as_uint32 (start + 1) of
                         Inl e \<Rightarrow> Inl e
                       | Inr second \<Rightarrow>
                           Inr (map (\<lambda>i. wrap_uint32 (start + int i))
                                  [0 ..< nat (stop - start)])))))"

text \<open>
  \<open>new_diploids[i] = v\<close> on an array of \<open>np.uint32\<close>, for an index that is not
  negative and a Python integer \<open>v\<close>.
\<close>

definition store_uint32 :: "int list \<Rightarrow> nat \<Rightarrow> int \<Rightarrow> error + int list" where
  "store_uint32 xs i v =
     (if i < length xs
      then (case as_uint32 v of Inl e \<Rightarrow> Inl e | Inr w \<Rightarrow> Inr (xs[i := w]))
      else Inl IndexError)"

text \<open>
  The loop over \<open>zip(parents[::2], parents[1::2])\<close>: two parents at a time, two edges
  and two entries of \<open>new_diploids\<close> per pair. The arguments after the parents are
  the loop variables \<open>dip\<close>, \<open>next_id\<close>, \<open>edges\<close> and \<open>new_diploids\<close>.
\<close>

fun offspring :: "(nat \<Rightarrow> real \<times> real) \<Rightarrow> int list \<Rightarrow> int list \<Rightarrow> nat \<Rightarrow> int \<Rightarrow> edge list \<Rightarrow> int list
    \<Rightarrow> error + (edge list \<times> int list \<times> int)" where
  "offspring rs dips (parent1 # parent2 # ps) dip next_id' es new_diploids =
     (case np_index dips (2 * parent1) of Inl e \<Rightarrow> Inl e | Inr p1g1 \<Rightarrow>
     (case np_index dips (2 * parent1 + 1) of Inl e \<Rightarrow> Inl e | Inr p1g2 \<Rightarrow>
     (case np_index dips (2 * parent2) of Inl e \<Rightarrow> Inl e | Inr p2g1 \<Rightarrow>
     (case np_index dips (2 * parent2 + 1) of Inl e \<Rightarrow> Inl e | Inr p2g2 \<Rightarrow>
       (let mendel = rs dip;
            p1 = (if fst mendel < 1 / 2 then p1g2 else p1g1);
            p2 = (if snd mendel < 1 / 2 then p2g2 else p2g1);
            es1 = es @ [\<lparr>left = 0, right = 1, parent = p1, child = next_id'\<rparr>]
        in (case store_uint32 new_diploids (2 * dip) next_id' of Inl e \<Rightarrow> Inl e | Inr nd1 \<Rightarrow>
           (let es2 = es1 @ [\<lparr>left = 0, right = 1, parent = p2, child = next_id' + 1\<rparr>]
            in (case store_uint32 nd1 (2 * dip + 1) (next_id' + 1) of Inl e \<Rightarrow> Inl e | Inr nd2 \<Rightarrow>
                 offspring rs dips ps (dip + 1) (next_id' + 2) es2 nd2))))))))"
| "offspring rs dips ps dip next_id' es new_diploids = Inr (es, new_diploids, next_id')"

text \<open>The variables of \<open>wf\<close> that live across generations.\<close>

record wf_state =
  simplifier_of :: simplifier
  tracker_of :: tracker
  diploids :: "int list"
  next_id :: int
  ancestral_gen_counter :: nat

text \<open>
  After a compaction: \<open>next_id = int(gc_rv[1])\<close> and \<open>diploids = np.arange(2 * N)\<close>;
  otherwise both stay.
\<close>

definition reset_ids :: "int \<Rightarrow> wf_state \<Rightarrow> bool \<times> int option \<Rightarrow> error + (int \<times> int list)" where
  "reset_ids N st gc_rv =
     (if fst gc_rv
      then (case snd gc_rv of
              None \<Rightarrow> Inl TypeError
            | Some n \<Rightarrow> (case arange_uint32 0 (2 * N) of
                          Inl e \<Rightarrow> Inl e
                        | Inr diploids' \<Rightarrow> Inr (n, diploids')))
      else Inr (next_id st, diploids st))"

text \<open>
  The schedule of ancestral samples: the entry under the counter fires when its
  generation equals \<open>gen + 1\<close>; then the chromosomes of the drawn individuals,
  counted from \<open>next_id\<close>, become the new ancestral samples and the counter moves
  on. The result is \<open>ancestral_samples\<close> and the counter. \<open>choice\<close> returns an
  array of 64-bit integers, and the sums are those of the integers as long as
  \<open>next_id\<close> fits 64 bits; the samples of a generation are stored
  (\<open>update_data\<close>) only after the ids of its offspring have been stored, which
  raises for a \<open>next_id\<close> that does not fit.
\<close>

definition ancestral_sampling :: "(real \<times> int) list \<Rightarrow> np_random \<Rightarrow> int \<Rightarrow> int \<Rightarrow> nat \<Rightarrow> int
    \<Rightarrow> error + (int list \<times> nat)" where
  "ancestral_sampling anc_sample_gen rng N gen counter next_id' =
     (if counter < length anc_sample_gen
         \<and> real_of_int (gen + 1) = fst (anc_sample_gen ! counter)
      then (case choice rng N (snd (anc_sample_gen ! counter)) of
              Inl e \<Rightarrow> Inl e
            | Inr ran_samples \<Rightarrow>
                Inr (map (\<lambda>r. 2 * r + next_id') ran_samples
                       @ map (\<lambda>r. 2 * r + 1 + next_id') ran_samples,
                     counter + 1))
      else Inr ([], counter))"

text \<open>
  The body of the loop \<open>for gen in range(ngens)\<close>. \<open>np.empty\<close> does not
  initialise: \<open>new_diploids\<close> starts as zeros here, and every entry is written when
  \<open>randint\<close> returns \<open>2 * N\<close> parents. \<open>np.empty([2 * N])\<close> refuses a negative
  size with \<open>ValueError\<close>; nothing else in the source looks at \<open>N\<close>. The order
  is that of the source: the node array and its ids, the parents, the loop over the
  pairs, \<open>update_data\<close>.
\<close>

definition wf_body :: "msprime \<Rightarrow> args \<Rightarrow> int \<Rightarrow> (real \<times> int) list \<Rightarrow> np_random \<Rightarrow> int \<Rightarrow> wf_state
    \<Rightarrow> error + wf_state" where
  "wf_body ms a N anc_sample_gen rng gen st =
     (case call ms a (simplifier_of st) gen (tracker_of st) of
        Inl e \<Rightarrow> Inl e
      | Inr (s1, tr1, gc_rv) \<Rightarrow>
     (case reset_ids N st gc_rv of
        Inl e \<Rightarrow> Inl e
      | Inr (next_id1, diploids1) \<Rightarrow>
     (case ancestral_sampling anc_sample_gen rng N gen (ancestral_gen_counter st) next_id1 of
        Inl e \<Rightarrow> Inl e
      | Inr (ancestral_samples, counter1) \<Rightarrow>
     (if N < 0 then Inl ValueError
      else
     (case arange_uint32 next_id1 (next_id1 + 2 * N) of
        Inl e \<Rightarrow> Inl e
      | Inr ids \<Rightarrow>
     (case randint rng 0 N (2 * N) of
        Inl e \<Rightarrow> Inl e
      | Inr parents \<Rightarrow>
     (case offspring (random_sample rng) diploids1 parents 0 next_id1 []
             (replicate (length diploids1) 0) of
        Inl e \<Rightarrow> Inl e
      | Inr (new_edges, new_diploids, next_id2) \<Rightarrow>
     (case update_data (post_gc_cleanup tr1 gc_rv)
             (map (\<lambda>i. \<lparr>id_n = i, generation = real_of_int (gen + 1), population = 0\<rparr>) ids)
             new_edges new_diploids ancestral_samples of
        Inl e \<Rightarrow> Inl e
      | Inr tr2 \<Rightarrow>
          Inr \<lparr>simplifier_of = s1,
               tracker_of = tr2,
               diploids = new_diploids,
               next_id = next_id2,
               ancestral_gen_counter = counter1\<rparr>))))))))"

fun wf_loop :: "msprime \<Rightarrow> args \<Rightarrow> int \<Rightarrow> (real \<times> int) list \<Rightarrow> (int \<Rightarrow> np_random) \<Rightarrow> int list \<Rightarrow> wf_state
    \<Rightarrow> error + wf_state" where
  "wf_loop ms a N anc_sample_gen rng [] st = Inr st"
| "wf_loop ms a N anc_sample_gen rng (gen # gens) st =
     (case wf_body ms a N anc_sample_gen (rng gen) gen st of
        Inl e \<Rightarrow> Inl e
      | Inr st' \<Rightarrow> wf_loop ms a N anc_sample_gen rng gens st')"

text \<open>
  \<open>wf\<close>. The source returns \<open>diploids\<close> and leaves its effects in the simplifier and
  the tracker; the model returns all of them. \<open>rng gen\<close> is what \<open>np.random\<close>
  returns in generation \<open>gen\<close>.
\<close>

definition wf :: "msprime \<Rightarrow> args \<Rightarrow> int \<Rightarrow> simplifier \<Rightarrow> tracker \<Rightarrow> (real \<times> int) list \<Rightarrow> int
    \<Rightarrow> (int \<Rightarrow> np_random) \<Rightarrow> error + wf_state" where
  "wf ms a N simplifier' tracker' anc_sample_gen ngens rng =
     (case arange_uint32 0 (2 * N) of
        Inl e \<Rightarrow> Inl e
      | Inr diploids' \<Rightarrow>
          wf_loop ms a N anc_sample_gen rng (map int [0 ..< nat ngens])
            \<lparr>simplifier_of = simplifier',
             tracker_of = tracker'\<lparr>nodes := []\<rparr>,
             diploids = diploids',
             next_id = int (length diploids'),
             ancestral_gen_counter = 0\<rparr>)"

definition SIMLEN :: int where
  "SIMLEN = 20"

text \<open>Python 3's \<open>round\<close> with one argument: to the nearest integer, a tie to the even one.\<close>

definition py_round :: "real \<Rightarrow> int" where
  "py_round x =
     (let f = \<lfloor>x\<rfloor>; r = x - of_int f
      in if r < 1 / 2 then f else if 1 / 2 < r then f + 1 else if even f then f else f + 1)"

text \<open>
  The flush of \<open>__main__\<close>: \<open>if len(tracker.nodes) > 0: simplifier.simplify(ngens,
  tracker)\<close>.
\<close>

definition final_flush :: "msprime \<Rightarrow> args \<Rightarrow> int \<Rightarrow> simplifier \<Rightarrow> tracker \<Rightarrow> error + (simplifier \<times> tracker)" where
  "final_flush ms a ngens s tr =
     (if length (nodes tr) > 0
      then (case simplify ms a s ngens tr of
              Inl e \<Rightarrow> Inl e
            | Inr (s', tr', n) \<Rightarrow> Inr (s', tr'))
      else Inr (s, tr))"

text \<open>
  \<open>__main__\<close> after the command line is parsed (Python 3: \<open>/\<close> is the true
  division). \<open>rng_final\<close> is \<open>np.random\<close> after the last generation. The result is
  the pair of tables after the last \<open>simplify_tables\<close>.
\<close>

definition main :: "msprime \<Rightarrow> args \<Rightarrow> (int \<Rightarrow> np_random) \<Rightarrow> np_random \<Rightarrow> error + tables" where
  "main ms a rng rng_final =
     (let ngens = SIMLEN * popsize a;
          anc_sample_gen =
            map (\<lambda>i. (real_of_int (ngens * (int i + 1)) / real_of_int SIMLEN,
                       max (py_round (real_of_int (popsize a) / 200)) 1))
              [0 ..< nat (SIMLEN - 2)]
      in
     (case wf ms a (popsize a) (init_simplifier (gc a)) init_tracker anc_sample_gen ngens rng of
        Inl e \<Rightarrow> Inl e
      | Inr st \<Rightarrow>
     (case final_flush ms a ngens (simplifier_of st) (tracker_of st) of
        Inl e \<Rightarrow> Inl e
      | Inr (s', tr') \<Rightarrow>
     (case choice rng_final (popsize a) (nsam a) of
        Inl e \<Rightarrow> Inl e
      | Inr ran_samples \<Rightarrow>
     (let nsam_samples = sort (map (\<lambda>r. 2 * r) ran_samples @ map (\<lambda>r. 2 * r + 1) ran_samples);
          all_samples' = nsam_samples @ anc_samples tr'
      in
     (case simplify_tables ms all_samples' (table_nodes s', table_edges s') of
        Inl e \<Rightarrow> Inl e
      | Inr (tabs, node_map) \<Rightarrow> Inr tabs))))))"

section \<open>Values to run the definitions on\<close>

text \<open>A buffer of four nodes over three generations, used to run the definitions.\<close>

definition buffer_ex :: tracker where
  "buffer_ex =
     \<lparr>nodes = [\<lparr>id_n = 4, generation = 1, population = 0\<rparr>,
               \<lparr>id_n = 5, generation = 1, population = 0\<rparr>,
               \<lparr>id_n = 6, generation = 2, population = 0\<rparr>,
               \<lparr>id_n = 7, generation = 3, population = 0\<rparr>],
      edges = [\<lparr>left = 0, right = 1, parent = 0, child = 4\<rparr>,
               \<lparr>left = 0, right = 1, parent = 1, child = 5\<rparr>],
      samples = [6, 7], anc_samples = [4, 5], anc_dtype = UInt32\<rparr>"

text \<open>
  A stand-in for msprime: the prior of two founders is a tree of three nodes,
  \<open>sort_tables\<close> returns its argument, and the reduction keeps the sample nodes
  only, in the order of the sample list, mapping every other node to \<open>-1\<close>.
\<close>

fun index_of :: "int \<Rightarrow> int list \<Rightarrow> int" where
  "index_of x [] = - 1"
| "index_of x (y # ys) =
     (if x = y then 0 else (let r = index_of x ys in if r < 0 then - 1 else r + 1))"

definition keep_samples :: "int list \<Rightarrow> tables \<Rightarrow> error + (tables \<times> int list)" where
  "keep_samples samp tabs =
     (if list_all (\<lambda>x. 0 \<le> x \<and> x < int (length (fst tabs))) samp
      then Inr ((map (\<lambda>x. fst tabs ! nat x) samp, []),
                map (\<lambda>i. index_of (int i) samp) [0 ..< length (fst tabs)])
      else Inl LibraryError)"

definition founders_ex :: tables where
  "founders_ex =
     ([\<lparr>flags = 1, pop = 0, time = 0\<rparr>, \<lparr>flags = 1, pop = 0, time = 0\<rparr>,
       \<lparr>flags = 0, pop = 0, time = 3 / 2\<rparr>],
      [\<lparr>left = 0, right = 1, parent = 2, child = 0\<rparr>,
       \<lparr>left = 0, right = 1, parent = 2, child = 1\<rparr>])"

definition msprime_ex :: msprime where
  "msprime_ex =
     \<lparr>simulate = (\<lambda>sample_size Ne random_seed. Inr founders_ex),
      sort_tables = (\<lambda>tabs. Inr tabs),
      simplify_tables = keep_samples\<rparr>"

definition args_ex :: args where
  "args_ex = \<lparr>popsize = 1, nsam = 1, seed = 42, gc = 2\<rparr>"

text \<open>
  The tracker after generation 0 of a population of one diploid (two chromosomes,
  ids 2 and 3, both taken as ancestral samples, both children of chromosome 0).
\<close>

definition tracker_gen0 :: tracker where
  "tracker_gen0 =
     \<lparr>nodes = [\<lparr>id_n = 2, generation = 1, population = 0\<rparr>,
               \<lparr>id_n = 3, generation = 1, population = 0\<rparr>],
      edges = [\<lparr>left = 0, right = 1, parent = 0, child = 2\<rparr>,
               \<lparr>left = 0, right = 1, parent = 0, child = 3\<rparr>],
      samples = [2, 3], anc_samples = [2, 3], anc_dtype = UInt32\<rparr>"


text \<open>
  A stand-in for \<open>np.random\<close>: \<open>choice\<close> returns the first individuals,
  \<open>randint\<close> the lower bound every time, and no gamete pair is swapped. A
  request for no value at all returns the empty array.
\<close>

definition rng_ex :: np_random where
  "rng_ex =
     \<lparr>choice = (\<lambda>a size'. if size' = 0 then Inr []
                           else if 0 < a \<and> 0 < size' \<and> size' \<le> a
                           then Inr (map int [0 ..< nat size']) else Inl ValueError),
      randint = (\<lambda>low high size'. if size' = 0 then Inr []
                           else if low < high \<and> 0 < size'
                           then Inr (replicate (nat size') low) else Inl ValueError),
      random_sample = (\<lambda>dip. (7 / 10, 9 / 10))\<rparr>"

text \<open>
  States of the driver for a population of one diploid, interval 5, before
  generation 3 (no compaction is due), and interval 2, before generation 4 (a
  compaction is due): the latter is the state the driver reaches after four
  generations with the stand-ins above (\<open>wf_four_generations_ex\<close> below).
\<close>

definition state_ex :: wf_state where
  "state_ex = \<lparr>simplifier_of = init_simplifier 5, tracker_of = tracker_gen0,
      diploids = [2, 3], next_id = 4, ancestral_gen_counter = 0\<rparr>"

definition simplifier_gen2 :: simplifier where
  "simplifier_gen2 =
     \<lparr>table_nodes = [\<lparr>flags = 1, pop = 0, time = 0\<rparr>, \<lparr>flags = 1, pop = 0, time = 0\<rparr>],
      table_edges = [], gc_interval = 2, last_gc_time = 2\<rparr>"

definition tracker_gen3 :: tracker where
  "tracker_gen3 =
     \<lparr>nodes = [\<lparr>id_n = 2, generation = 3, population = 0\<rparr>,
               \<lparr>id_n = 3, generation = 3, population = 0\<rparr>,
               \<lparr>id_n = 4, generation = 4, population = 0\<rparr>,
               \<lparr>id_n = 5, generation = 4, population = 0\<rparr>],
      edges = [\<lparr>left = 0, right = 1, parent = 0, child = 2\<rparr>,
               \<lparr>left = 0, right = 1, parent = 0, child = 3\<rparr>,
               \<lparr>left = 0, right = 1, parent = 2, child = 4\<rparr>,
               \<lparr>left = 0, right = 1, parent = 2, child = 5\<rparr>],
      samples = [4, 5], anc_samples = [], anc_dtype = Float64\<rparr>"

definition state_gen3 :: wf_state where
  "state_gen3 = \<lparr>simplifier_of = simplifier_gen2, tracker_of = tracker_gen3,
      diploids = [4, 5], next_id = 6, ancestral_gen_counter = 0\<rparr>"

text \<open>
  The state after two generations of one diploid with the stand-ins, for an interval
  \<open>I\<close> that is not zero: generation 1 compacts, whatever the interval.
\<close>

definition state_gen1 :: "int \<Rightarrow> wf_state" where
  "state_gen1 I =
     \<lparr>simplifier_of =
        \<lparr>table_nodes = [\<lparr>flags = 1, pop = 0, time = 0\<rparr>, \<lparr>flags = 1, pop = 0, time = 0\<rparr>],
         table_edges = [], gc_interval = I, last_gc_time = 1\<rparr>,
      tracker_of =
        \<lparr>nodes = [\<lparr>id_n = 2, generation = 2, population = 0\<rparr>,
                  \<lparr>id_n = 3, generation = 2, population = 0\<rparr>],
         edges = [\<lparr>left = 0, right = 1, parent = 0, child = 2\<rparr>,
                  \<lparr>left = 0, right = 1, parent = 0, child = 3\<rparr>],
         samples = [2, 3], anc_samples = [], anc_dtype = Float64\<rparr>,
      diploids = [2, 3], next_id = 4, ancestral_gen_counter = 0\<rparr>"



definition tracker_anc_ex :: tracker where
  "tracker_anc_ex =
     \<lparr>nodes = [\<lparr>id_n = 2, generation = 3, population = 0\<rparr>,
               \<lparr>id_n = 3, generation = 3, population = 0\<rparr>,
               \<lparr>id_n = 4, generation = 4, population = 0\<rparr>,
               \<lparr>id_n = 5, generation = 4, population = 0\<rparr>],
      edges = [\<lparr>left = 0, right = 1, parent = 0, child = 2\<rparr>,
               \<lparr>left = 0, right = 1, parent = 0, child = 3\<rparr>,
               \<lparr>left = 0, right = 1, parent = 2, child = 4\<rparr>,
               \<lparr>left = 0, right = 1, parent = 2, child = 5\<rparr>],
      samples = [4, 5], anc_samples = [3], anc_dtype = Int32\<rparr>"

definition tables_gen4 :: tables where
  "tables_gen4 =
     ([\<lparr>flags = 1, pop = 0, time = 2\<rparr>, \<lparr>flags = 1, pop = 0, time = 2\<rparr>,
       \<lparr>flags = 1, pop = 0, time = 1\<rparr>, \<lparr>flags = 1, pop = 0, time = 1\<rparr>,
       \<lparr>flags = 1, pop = 0, time = 0\<rparr>, \<lparr>flags = 1, pop = 0, time = 0\<rparr>],
      [\<lparr>left = 0, right = 1, parent = 0, child = 2\<rparr>,
       \<lparr>left = 0, right = 1, parent = 0, child = 3\<rparr>,
       \<lparr>left = 0, right = 1, parent = 2, child = 4\<rparr>,
       \<lparr>left = 0, right = 1, parent = 2, child = 5\<rparr>])"

definition null_all :: "int list \<Rightarrow> tables \<Rightarrow> error + (tables \<times> int list)" where
  "null_all samp tabs = Inr (([], []), replicate (length (fst tabs)) (- 1))"
section \<open>Properties of the buffer\<close>

lemma fold_max_Max: "fold max xs (x::real) = Max (set (x # xs))"
  using Max.set_eq_fold [of x xs] by simp

lemma amax_Max: "xs \<noteq> [] \<Longrightarrow> amax xs = Inr (Max (set xs))"
  by (cases xs) (simp_all add: fold_max_Max del: set_simps)

lemma convert_time_nodes:
  assumes "nodes tr \<noteq> []"
  shows "convert_time tr =
    Inr (tr\<lparr>nodes := map (\<lambda>n. n\<lparr>generation := Max (set (map generation (nodes tr))) - generation n\<rparr>)
                         (nodes tr)\<rparr>)"
proof -
  from assms have "map generation (nodes tr) \<noteq> []" by simp
  then have "amax (map generation (nodes tr)) = Inr (Max (set (map generation (nodes tr))))"
    by (rule amax_Max)
  then show ?thesis by (simp add: convert_time_def)
qed

text \<open>
  C6. \<open>convert_time\<close> on a buffer that holds nodes returns normally and gives every
  node the time \<open>max(times) - t\<close>, where \<open>t\<close> was its forward time; nothing else of
  the tracker changes; a node that had the maximal forward time has time zero
  afterwards (and such a node exists); and the order of any two node times is
  reversed.
\<close>

theorem convert_time_rebases:
  assumes "nodes tr \<noteq> []"
  shows "\<exists>tr'. convert_time tr = Inr tr'
           \<and> tr' = tr\<lparr>nodes := nodes tr'\<rparr>
           \<and> length (nodes tr') = length (nodes tr)
           \<and> (\<forall>i < length (nodes tr).
                  nodes tr' ! i = (nodes tr ! i)\<lparr>generation :=
                     Max (set (map generation (nodes tr))) - generation (nodes tr ! i)\<rparr>)
           \<and> (\<forall>i < length (nodes tr).
                  generation (nodes tr ! i) = Max (set (map generation (nodes tr)))
                    \<longrightarrow> generation (nodes tr' ! i) = 0)
           \<and> (\<exists>i < length (nodes tr). generation (nodes tr' ! i) = 0)
           \<and> (\<forall>i < length (nodes tr). \<forall>j < length (nodes tr).
                  (generation (nodes tr ! i) < generation (nodes tr ! j))
                    = (generation (nodes tr' ! j) < generation (nodes tr' ! i)))"
proof -
  define M where "M = Max (set (map generation (nodes tr)))"
  define ns' where "ns' = map (\<lambda>n. n\<lparr>generation := M - generation n\<rparr>) (nodes tr)"
  have ct: "convert_time tr = Inr (tr\<lparr>nodes := ns'\<rparr>)"
    using convert_time_nodes [OF assms] by (simp add: ns'_def M_def)
  have len: "length ns' = length (nodes tr)"
    by (simp add: ns'_def)
  have nth: "ns' ! i = (nodes tr ! i)\<lparr>generation := M - generation (nodes tr ! i)\<rparr>"
    if "i < length (nodes tr)" for i
    using that by (simp add: ns'_def)
  have gen: "generation (ns' ! i) = M - generation (nodes tr ! i)"
    if "i < length (nodes tr)" for i
    using that by (simp add: nth)
  have "M \<in> set (map generation (nodes tr))"
    unfolding M_def using assms by (intro Max_in) simp_all
  then obtain k where k: "k < length (nodes tr)" "generation (nodes tr ! k) = M"
    by (auto simp: in_set_conv_nth)
  have zero: "\<exists>i < length (nodes tr). generation (ns' ! i) = 0"
    using k gen [of k] by (intro exI [of _ k]) simp
  have ord: "(generation (nodes tr ! i) < generation (nodes tr ! j))
        = (generation (ns' ! j) < generation (ns' ! i))"
    if "i < length (nodes tr)" "j < length (nodes tr)" for i j
    using that by (simp add: gen)
  have maxz: "generation (ns' ! i) = 0"
    if "i < length (nodes tr)" "generation (nodes tr ! i) = M" for i
    using that by (simp add: gen)
  show ?thesis
  proof (intro exI [of _ "tr\<lparr>nodes := ns'\<rparr>"] conjI)
    show "convert_time tr = Inr (tr\<lparr>nodes := ns'\<rparr>)" by (rule ct)
    show "tr\<lparr>nodes := ns'\<rparr> = tr\<lparr>nodes := nodes (tr\<lparr>nodes := ns'\<rparr>)\<rparr>" by simp
    show "length (nodes (tr\<lparr>nodes := ns'\<rparr>)) = length (nodes tr)" by (simp add: len)
    show "\<forall>i<length (nodes tr). nodes (tr\<lparr>nodes := ns'\<rparr>) ! i =
        (nodes tr ! i)\<lparr>generation := Max (set (map generation (nodes tr))) - generation (nodes tr ! i)\<rparr>"
      using nth by (simp add: M_def)
    show "\<forall>i<length (nodes tr). generation (nodes tr ! i) = Max (set (map generation (nodes tr)))
        \<longrightarrow> generation (nodes (tr\<lparr>nodes := ns'\<rparr>) ! i) = 0"
      using maxz by (simp add: M_def)
    show "\<exists>i<length (nodes tr). generation (nodes (tr\<lparr>nodes := ns'\<rparr>) ! i) = 0"
      using zero by simp
    show "\<forall>i<length (nodes tr). \<forall>j<length (nodes tr).
        (generation (nodes tr ! i) < generation (nodes tr ! j))
          = (generation (nodes (tr\<lparr>nodes := ns'\<rparr>) ! j) < generation (nodes (tr\<lparr>nodes := ns'\<rparr>) ! i))"
      using ord by simp
  qed
qed

lemma convert_time_buffer_ex:
  "convert_time buffer_ex = Inr (buffer_ex\<lparr>nodes :=
      map (\<lambda>n. n\<lparr>generation := (generation n - 3) * (- 1)\<rparr>) (nodes buffer_ex)\<rparr>)"
  by (simp add: convert_time_def buffer_ex_def)

lemma convert_time_buffer_ex_times:
  "convert_time buffer_ex = Inr tr' \<Longrightarrow> map generation (nodes tr') = [2, 2, 1, 0]"
  unfolding convert_time_buffer_ex by (auto simp: buffer_ex_def)

theorem convert_time_rebases_witness:
  "nodes buffer_ex \<noteq> []
     \<and> (\<exists>tr'. convert_time buffer_ex = Inr tr'
            \<and> map generation (nodes tr') = [2, 2, 1, 0])"
proof -
  have ne: "nodes buffer_ex \<noteq> []"
    by (simp add: buffer_ex_def)
  from convert_time_rebases [OF ne]
  obtain tr' where ct: "convert_time buffer_ex = Inr tr'" by blast
  then have "map generation (nodes tr') = [2, 2, 1, 0]"
    by (rule convert_time_buffer_ex_times)
  with ct have "\<exists>tr'. convert_time buffer_ex = Inr tr' \<and> map generation (nodes tr') = [2, 2, 1, 0]"
    by (intro exI [of _ tr']) simp
  with ne show ?thesis by simp
qed

text \<open>
  C9. \<open>post_gc_cleanup\<close> empties the buffered nodes and edges when the result it
  is handed says a compaction ran, leaves them as they are when it says none ran,
  and leaves \<open>samples\<close> and \<open>anc_samples\<close> unchanged in both cases.
\<close>

theorem post_gc_cleanup_frame:
  "(fst gc_rv \<longrightarrow> nodes (post_gc_cleanup tr gc_rv) = [] \<and> edges (post_gc_cleanup tr gc_rv) = [])
     \<and> (\<not> fst gc_rv \<longrightarrow> post_gc_cleanup tr gc_rv = tr)
     \<and> samples (post_gc_cleanup tr gc_rv) = samples tr
     \<and> anc_samples (post_gc_cleanup tr gc_rv) = anc_samples tr"
  by (simp add: post_gc_cleanup_def reset_data_def)

theorem post_gc_cleanup_frame_witness:
  "nodes (post_gc_cleanup buffer_ex (True, Some 7)) = []
     \<and> edges (post_gc_cleanup buffer_ex (True, Some 7)) = []
     \<and> samples (post_gc_cleanup buffer_ex (True, Some 7)) = [6, 7]
     \<and> anc_samples (post_gc_cleanup buffer_ex (True, Some 7)) = [4, 5]
     \<and> post_gc_cleanup buffer_ex (False, None) = buffer_ex
     \<and> nodes buffer_ex \<noteq> []"
  using post_gc_cleanup_frame [of "(True, Some 7)" buffer_ex]
    post_gc_cleanup_frame [of "(False, None)" buffer_ex]
  by (simp add: buffer_ex_def)

section \<open>Properties of the compaction\<close>





lemma convert_time_frame:
  "convert_time tr = Inr tr1 \<Longrightarrow>
     anc_samples tr1 = anc_samples tr \<and> samples tr1 = samples tr \<and> edges tr1 = edges tr
       \<and> anc_dtype tr1 = anc_dtype tr \<and> length (nodes tr1) = length (nodes tr)"
  by (auto simp: convert_time_def split: sum.splits)


lemma lookup_all_error: "lookup_all node_map anc = Inl e \<Longrightarrow> e = IndexError"
  by (induction anc) (auto simp: np_index_def Let_def split: sum.splits if_splits)

text \<open>
  \<open>simplify\<close> once its first three steps have succeeded: the reduction primitive
  is applied to the sample list and the sorted tables, and what it returns decides
  the rest.
\<close>

lemma simplify_after_sort:
  assumes "seed_or_age ms a s g = Inr (ns, es, off)"
    and "convert_time tr = Inr tr1"
    and "sort_tables ms
           (ns @ map (\<lambda>n. \<lparr>flags = 1, pop = population n, time = generation n\<rparr>) (nodes tr1),
            es @ map (\<lambda>e. e\<lparr>child := np_add Int32 off (child e)\<rparr>) (edges tr1)) = Inr tabs"
  shows "simplify ms a s g tr =
     (case simplify_tables ms (all_samples (anc_dtype tr) (anc_samples tr) (samples tr) off) tabs of
        Inl e \<Rightarrow> Inl e
      | Inr ((ns', es'), node_map) \<Rightarrow>
          (case lookup_all node_map (anc_samples tr) of
             Inl e \<Rightarrow> Inl e
           | Inr anc' \<Rightarrow>
               Inr (s\<lparr>table_nodes := ns', table_edges := es'\<rparr>,
                    tr1\<lparr>anc_samples := anc', anc_dtype := (if anc' = [] then Float64 else Int32)\<rparr>,
                    int (length ns'))))"
proof -
  from convert_time_frame [OF assms(2)]
  have fr: "anc_samples tr1 = anc_samples tr" "samples tr1 = samples tr" "anc_dtype tr1 = anc_dtype tr"
    by simp_all
  show ?thesis
    apply (simp add: simplify_def assms(1) assms(2) assms(3))
    unfolding fr
    apply (rule refl)
    done
qed

lemma seed_or_age_ex:
  "seed_or_age msprime_ex args_ex (init_simplifier 2) 1 =
     Inr ([\<lparr>flags = 1, pop = 0, time = 1\<rparr>, \<lparr>flags = 1, pop = 0, time = 1\<rparr>,
           \<lparr>flags = 0, pop = 0, time = 5 / 2\<rparr>], snd founders_ex, 1)"
  by (simp add: seed_or_age_def msprime_ex_def args_ex_def founders_ex_def)


lemma convert_time_gen0_ex:
  "convert_time tracker_gen0 =
     Inr (tracker_gen0\<lparr>nodes := [\<lparr>id_n = 2, generation = 0, population = 0\<rparr>,
                                  \<lparr>id_n = 3, generation = 0, population = 0\<rparr>]\<rparr>)"
  by (simp add: convert_time_def tracker_gen0_def)

lemma all_samples_ex: "all_samples UInt32 [2, 3] [2, 3] 1 = [4, 3]"
  by (simp add: all_samples_def np_add_def wrap_uint32_def)

lemma simplify_gen1_ex: "simplify msprime_ex args_ex (init_simplifier 2) 1 tracker_gen0 =
   Inr (\<lparr>table_nodes = [\<lparr>flags = 1, pop = 0, time = 0\<rparr>, \<lparr>flags = 1, pop = 0, time = 0\<rparr>],
         table_edges = [], gc_interval = 2, last_gc_time = 0\<rparr>,
        \<lparr>nodes = [\<lparr>id_n = 2, generation = 0, population = 0\<rparr>,
                  \<lparr>id_n = 3, generation = 0, population = 0\<rparr>],
         edges = [\<lparr>left = 0, right = 1, parent = 0, child = 2\<rparr>,
                  \<lparr>left = 0, right = 1, parent = 0, child = 3\<rparr>],
         samples = [2, 3], anc_samples = [- 1, 1], anc_dtype = Int32\<rparr>, 2)"
  by (simp add: simplify_def seed_or_age_def msprime_ex_def args_ex_def init_simplifier_def
     tracker_gen0_def convert_time_def founders_ex_def all_samples_ex keep_samples_def np_index_def
     np_add_def wrap_int32_def upt_conv_Cons)




text \<open>
  C2, amended. For an interval that is not zero, \<open>__call__\<close> compacts (runs
  \<open>simplify\<close>, records the generation as the last compaction and returns
  \<open>(True, next_id)\<close>) exactly when \<open>g > 0\<close> and \<open>g mod interval = 0\<close> or
  \<open>g = 1\<close>; in every other case it returns \<open>(False, None)\<close> with the simplifier and
  the tracker as they were.
\<close>

theorem call_compacts_iff:
  assumes "gc_interval s \<noteq> 0"
  shows "call ms a s g tr =
     (if g > 0 \<and> (g mod gc_interval s = 0 \<or> g = 1)
      then (case simplify ms a s g tr of
              Inl e \<Rightarrow> Inl e
            | Inr (s', tr', n) \<Rightarrow> Inr (s'\<lparr>last_gc_time := g\<rparr>, tr', (True, Some n)))
      else Inr (s, tr, (False, None)))"
  using assms by (simp add: call_def)

theorem call_compacts_iff_witness:
  "gc_interval (init_simplifier 2) \<noteq> 0
     \<and> call msprime_ex args_ex (init_simplifier 2) 3 tracker_gen0
         = Inr (init_simplifier 2, tracker_gen0, (False, None))
     \<and> call msprime_ex args_ex (init_simplifier 2) 0 tracker_gen0
         = Inr (init_simplifier 2, tracker_gen0, (False, None))
     \<and> (case call msprime_ex args_ex (init_simplifier 2) 1 tracker_gen0 of
           Inl e \<Rightarrow> False
         | Inr (s', tr', gc_rv) \<Rightarrow> gc_rv = (True, Some 2) \<and> last_gc_time s' = 1)"
proof -
  have ne: "gc_interval (init_simplifier 2) \<noteq> 0"
    by (simp add: init_simplifier_def)
  have g2: "gc_interval (init_simplifier 2) = 2"
    by (simp add: init_simplifier_def)
  show ?thesis
    using ne call_compacts_iff [OF ne, of msprime_ex args_ex 3 tracker_gen0]
      call_compacts_iff [OF ne, of msprime_ex args_ex 0 tracker_gen0]
      call_compacts_iff [OF ne, of msprime_ex args_ex 1 tracker_gen0]
    by (simp add: g2 simplify_gen1_ex)
qed

text \<open>
  C2 as stated fails for the interval zero: at generation 2 the condition of the
  claim is false, and the call raises \<open>ZeroDivisionError\<close> instead of returning
  \<open>(False, None)\<close>; at generation 1 it raises too, instead of compacting.
\<close>

theorem call_zero_interval_counterexample:
  "call msprime_ex args_ex (init_simplifier 0) 2 tracker_gen0 = Inl ZeroDivisionError
     \<and> call msprime_ex args_ex (init_simplifier 0) 2 tracker_gen0
          \<noteq> Inr (init_simplifier 0, tracker_gen0, (False, None))
     \<and> \<not> ((2::int) > 0 \<and> ((2::int) mod gc_interval (init_simplifier 0) = 0 \<or> (2::int) = 1))
     \<and> call msprime_ex args_ex (init_simplifier 0) 1 tracker_gen0 = Inl ZeroDivisionError"
  by (simp add: call_def init_simplifier_def)

lemma lookup_all_in_range:
  "list_all (\<lambda>i. - int (length node_map) \<le> i \<and> i < int (length node_map)) anc \<Longrightarrow>
     lookup_all node_map anc
       = Inr (map (\<lambda>i. node_map ! nat (if i < 0 then i + int (length node_map) else i)) anc)"
  by (induction anc) (auto simp: np_index_def Let_def)

lemma lookup_all_out_of_range:
  "\<not> list_all (\<lambda>i. - int (length node_map) \<le> i \<and> i < int (length node_map)) anc \<Longrightarrow>
     lookup_all node_map anc = Inl IndexError"
  by (induction anc) (auto simp: np_index_def Let_def split: sum.splits dest: lookup_all_error)

text \<open>
  C4, amended. \<open>simplify\<close> checks no entry of the node map. In a compaction
  whose reduction returns the node map \<open>node_map\<close>: when the stored
  ancestral-sample ids, shifted by the node offset, are nodes the node map has an
  entry for, \<open>simplify\<close> returns normally, with the tables of the reduction and
  with every stored ancestral-sample id replaced by an entry of the node map,
  whatever the entries are. When the node offset is zero (every compaction but the
  one of generation 1, which seeds the tables), every stored ancestral-sample id
  that is a valid index of the node map (a negative index counting from the end) is
  replaced by its entry of the node map, the null node \<open>-1\<close> like any other
  value, and \<open>simplify\<close> raises \<open>IndexError\<close> otherwise.
\<close>

theorem simplify_stores_node_map_entries:
  assumes "seed_or_age ms a s g = Inr (ns, es, off)"
    and "convert_time tr = Inr tr1"
    and "sort_tables ms
           (ns @ map (\<lambda>n. \<lparr>flags = 1, pop = population n, time = generation n\<rparr>) (nodes tr1),
            es @ map (\<lambda>e. e\<lparr>child := np_add Int32 off (child e)\<rparr>) (edges tr1)) = Inr tabs"
    and "simplify_tables ms (all_samples (anc_dtype tr) (anc_samples tr) (samples tr) off) tabs
           = Inr ((ns', es'), node_map)"
  shows "(0 \<le> off \<and> (\<forall>i \<in> set (anc_samples tr). 0 \<le> i \<and> i + off < int (length node_map)) \<longrightarrow>
            (\<exists>s' tr' n. simplify ms a s g tr = Inr (s', tr', n)
                \<and> table_nodes s' = ns' \<and> table_edges s' = es' \<and> n = int (length ns')
                \<and> length (anc_samples tr') = length (anc_samples tr)
                \<and> set (anc_samples tr') \<subseteq> set node_map))
       \<and> (off = 0
            \<and> list_all (\<lambda>i. - int (length node_map) \<le> i \<and> i < int (length node_map)) (anc_samples tr) \<longrightarrow>
            simplify ms a s g tr =
              Inr (s\<lparr>table_nodes := ns', table_edges := es'\<rparr>,
                   tr1\<lparr>anc_samples :=
                          map (\<lambda>i. node_map ! nat (if i < 0 then i + int (length node_map) else i))
                            (anc_samples tr),
                        anc_dtype := (if anc_samples tr = [] then Float64 else Int32)\<rparr>,
                   int (length ns')))
       \<and> (off = 0
            \<and> \<not> list_all (\<lambda>i. - int (length node_map) \<le> i \<and> i < int (length node_map)) (anc_samples tr) \<longrightarrow>
            simplify ms a s g tr = Inl IndexError)"
proof (intro conjI impI)
  note eq = simplify_after_sort [OF assms(1-3)]
  let ?anc' = "map (\<lambda>i. node_map ! nat (if i < 0 then i + int (length node_map) else i))
                 (anc_samples tr)"
  have ok: "simplify ms a s g tr =
              Inr (s\<lparr>table_nodes := ns', table_edges := es'\<rparr>,
                   tr1\<lparr>anc_samples := ?anc',
                        anc_dtype := (if anc_samples tr = [] then Float64 else Int32)\<rparr>,
                   int (length ns'))"
    if "list_all (\<lambda>i. - int (length node_map) \<le> i \<and> i < int (length node_map)) (anc_samples tr)"
    by (simp add: eq assms(4) lookup_all_in_range [OF that])
  show "simplify ms a s g tr =
              Inr (s\<lparr>table_nodes := ns', table_edges := es'\<rparr>,
                   tr1\<lparr>anc_samples := ?anc',
                        anc_dtype := (if anc_samples tr = [] then Float64 else Int32)\<rparr>,
                   int (length ns'))"
    if "off = 0
      \<and> list_all (\<lambda>i. - int (length node_map) \<le> i \<and> i < int (length node_map)) (anc_samples tr)"
    using that ok by blast
  show "simplify ms a s g tr = Inl IndexError"
    if h: "off = 0
      \<and> \<not> list_all (\<lambda>i. - int (length node_map) \<le> i \<and> i < int (length node_map)) (anc_samples tr)"
  proof -
    from h have "\<not> list_all (\<lambda>i. - int (length node_map) \<le> i \<and> i < int (length node_map)) (anc_samples tr)"
      by simp
    then show ?thesis
      by (simp add: eq assms(4) lookup_all_out_of_range)
  qed
  show "\<exists>s' tr' n. simplify ms a s g tr = Inr (s', tr', n)
                \<and> table_nodes s' = ns' \<and> table_edges s' = es' \<and> n = int (length ns')
                \<and> length (anc_samples tr') = length (anc_samples tr)
                \<and> set (anc_samples tr') \<subseteq> set node_map"
    if h: "0 \<le> off \<and> (\<forall>i \<in> set (anc_samples tr). 0 \<le> i \<and> i + off < int (length node_map))"
  proof -
    from h have v: "0 \<le> i \<and> i < int (length node_map)" if "i \<in> set (anc_samples tr)" for i
      using that by fastforce
    then have "list_all (\<lambda>i. - int (length node_map) \<le> i \<and> i < int (length node_map)) (anc_samples tr)"
      by (fastforce simp: list_all_iff)
    note r = ok [OF this]
    have sub: "set ?anc' \<subseteq> set node_map"
    proof
      fix x assume "x \<in> set ?anc'"
      then obtain i where i: "i \<in> set (anc_samples tr)"
        and x: "x = node_map ! nat (if i < 0 then i + int (length node_map) else i)"
        by auto
      from v [OF i] have "nat i < length node_map" by linarith
      with v [OF i] x show "x \<in> set node_map" by simp
    qed
    let ?s' = "s\<lparr>table_nodes := ns', table_edges := es'\<rparr>"
    let ?tr' = "tr1\<lparr>anc_samples := ?anc',
                        anc_dtype := (if anc_samples tr = [] then Float64 else Int32)\<rparr>"
    have "simplify ms a s g tr = Inr (?s', ?tr', int (length ns'))
        \<and> table_nodes ?s' = ns' \<and> table_edges ?s' = es' \<and> int (length ns') = int (length ns')
        \<and> length (anc_samples ?tr') = length (anc_samples tr)
        \<and> set (anc_samples ?tr') \<subseteq> set node_map"
      using r sub by simp
    then show ?thesis by blast
  qed
qed

text \<open>
  C4 as stated fails: population size 1, an ancestral sample taken in generation 0,
  the first compaction at generation 1. The reduction maps node 2 to \<open>-1\<close>, the
  stored ancestral-sample id 2 is looked up in the node map, and \<open>simplify\<close>
  returns with \<open>-1\<close> stored in \<open>anc_samples\<close>. (In this compaction the node
  offset is 1 and the sample list holds the ids plus 1, while the lookup takes the
  ids as they are.)
\<close>

theorem simplify_null_stored_counterexample:
  "simplify_tables msprime_ex (all_samples UInt32 [2, 3] [2, 3] 1)
       ([\<lparr>flags = 1, pop = 0, time = 1\<rparr>, \<lparr>flags = 1, pop = 0, time = 1\<rparr>,
         \<lparr>flags = 0, pop = 0, time = 5 / 2\<rparr>,
         \<lparr>flags = 1, pop = 0, time = 0\<rparr>, \<lparr>flags = 1, pop = 0, time = 0\<rparr>],
        [\<lparr>left = 0, right = 1, parent = 2, child = 0\<rparr>, \<lparr>left = 0, right = 1, parent = 2, child = 1\<rparr>,
         \<lparr>left = 0, right = 1, parent = 0, child = 3\<rparr>, \<lparr>left = 0, right = 1, parent = 0, child = 4\<rparr>])
     = Inr (([\<lparr>flags = 1, pop = 0, time = 0\<rparr>, \<lparr>flags = 1, pop = 0, time = 0\<rparr>], []),
            [- 1, - 1, - 1, 1, 0])
   \<and> np_index [- 1, - 1, - 1, 1, 0 :: int] 2 = Inr (- 1)
   \<and> (case simplify msprime_ex args_ex (init_simplifier 2) 1 tracker_gen0 of
         Inl e \<Rightarrow> False
       | Inr (s', tr', n) \<Rightarrow> anc_samples tr' = [- 1, 1] \<and> n = 2)"
proof -
  have "simplify_tables msprime_ex = keep_samples"
    by (simp add: msprime_ex_def)
  then show ?thesis
    by (simp add: simplify_gen1_ex all_samples_ex keep_samples_def np_index_def upt_conv_Cons)
qed

lemma seed_or_age_gen4_ex:
  "seed_or_age ms args_ex simplifier_gen2 4 =
     Inr ([\<lparr>flags = 1, pop = 0, time = 2\<rparr>, \<lparr>flags = 1, pop = 0, time = 2\<rparr>], [], 0)"
  by (simp add: seed_or_age_def simplifier_gen2_def)

lemma convert_time_anc_ex:
  "convert_time (tracker_anc_ex\<lparr>anc_samples := anc\<rparr>) =
     Inr (tracker_anc_ex\<lparr>nodes := [\<lparr>id_n = 2, generation = 1, population = 0\<rparr>,
               \<lparr>id_n = 3, generation = 1, population = 0\<rparr>,
               \<lparr>id_n = 4, generation = 0, population = 0\<rparr>,
               \<lparr>id_n = 5, generation = 0, population = 0\<rparr>], anc_samples := anc\<rparr>)"
  by (simp add: convert_time_def tracker_anc_ex_def)

lemma tables_anc_ex:
  "([\<lparr>flags = 1, pop = 0, time = 2\<rparr>, \<lparr>flags = 1, pop = 0, time = 2\<rparr>]
      @ map (\<lambda>n. \<lparr>flags = 1, pop = population n, time = generation n\<rparr>)
          (nodes (tracker_anc_ex\<lparr>nodes := [\<lparr>id_n = 2, generation = 1, population = 0\<rparr>,
               \<lparr>id_n = 3, generation = 1, population = 0\<rparr>,
               \<lparr>id_n = 4, generation = 0, population = 0\<rparr>,
               \<lparr>id_n = 5, generation = 0, population = 0\<rparr>], anc_samples := anc\<rparr>)),
    [] @ map (\<lambda>e. e\<lparr>child := np_add Int32 0 (child e)\<rparr>)
          (edges (tracker_anc_ex\<lparr>nodes := [\<lparr>id_n = 2, generation = 1, population = 0\<rparr>,
               \<lparr>id_n = 3, generation = 1, population = 0\<rparr>,
               \<lparr>id_n = 4, generation = 0, population = 0\<rparr>,
               \<lparr>id_n = 5, generation = 0, population = 0\<rparr>], anc_samples := anc\<rparr>)))
   = tables_gen4"
  by (simp add: tracker_anc_ex_def tables_gen4_def np_add_def wrap_int32_def)

lemma all_samples_anc_ex:
  "all_samples (anc_dtype (tracker_anc_ex\<lparr>anc_samples := [3]\<rparr>))
     (anc_samples (tracker_anc_ex\<lparr>anc_samples := [3]\<rparr>))
     (samples (tracker_anc_ex\<lparr>anc_samples := [3]\<rparr>)) 0 = [5, 4, 3]"
  by (simp add: all_samples_def np_add_def wrap_uint32_def wrap_int32_def tracker_anc_ex_def)

lemma keep_samples_gen4: "keep_samples [5, 4, 3] tables_gen4
      = Inr (([\<lparr>flags = 1, pop = 0, time = 0\<rparr>, \<lparr>flags = 1, pop = 0, time = 0\<rparr>,
               \<lparr>flags = 1, pop = 0, time = 1\<rparr>], []), [- 1, - 1, - 1, 2, 1, 0])"
  by (simp add: keep_samples_def tables_gen4_def upt_conv_Cons)

lemma null_all_gen4: "null_all L tables_gen4 = Inr (([], []), [- 1, - 1, - 1, - 1, - 1, - 1])"
  by (simp add: null_all_def tables_gen4_def numeral_eq_Suc)

text \<open>
  The compaction of generation 4 of one diploid, node 3 an ancestral sample: with
  the stand-in that keeps the samples the id 3 becomes 2; with a reduction that maps
  every node to \<open>-1\<close> it becomes \<open>-1\<close>, and the compaction returns as well; an
  ancestral-sample id 6 is no index of the node map. And the compaction of
  generation 1 with the chromosomes of generation 0 as ancestral samples returns.
\<close>

theorem simplify_stores_node_map_entries_witness:
  "(case simplify msprime_ex args_ex simplifier_gen2 4 (tracker_anc_ex\<lparr>anc_samples := [3]\<rparr>) of
      Inl e \<Rightarrow> False
    | Inr (s', tr', n) \<Rightarrow> anc_samples tr' = [2] \<and> anc_dtype tr' = Int32 \<and> n = 3)
   \<and> (case simplify (msprime_ex\<lparr>simplify_tables := null_all\<rparr>) args_ex simplifier_gen2 4
            (tracker_anc_ex\<lparr>anc_samples := [3]\<rparr>) of
      Inl e \<Rightarrow> False
    | Inr (s', tr', n) \<Rightarrow> anc_samples tr' = [- 1] \<and> anc_dtype tr' = Int32 \<and> n = 0)
   \<and> simplify (msprime_ex\<lparr>simplify_tables := null_all\<rparr>) args_ex simplifier_gen2 4
        (tracker_anc_ex\<lparr>anc_samples := [6]\<rparr>) = Inl IndexError
   \<and> (\<exists>s' tr' n. simplify msprime_ex args_ex (init_simplifier 2) 1 tracker_gen0 = Inr (s', tr', n)
         \<and> n = 2 \<and> length (anc_samples tr') = 2)"
proof -
  let ?null = "msprime_ex\<lparr>simplify_tables := null_all\<rparr>"
  have st: "sort_tables ms'
       ([\<lparr>flags = 1, pop = 0, time = 2\<rparr>, \<lparr>flags = 1, pop = 0, time = 2\<rparr>]
          @ map (\<lambda>n. \<lparr>flags = 1, pop = population n, time = generation n\<rparr>)
              (nodes (tracker_anc_ex\<lparr>nodes := [\<lparr>id_n = 2, generation = 1, population = 0\<rparr>,
                   \<lparr>id_n = 3, generation = 1, population = 0\<rparr>,
                   \<lparr>id_n = 4, generation = 0, population = 0\<rparr>,
                   \<lparr>id_n = 5, generation = 0, population = 0\<rparr>], anc_samples := anc\<rparr>)),
        [] @ map (\<lambda>e. e\<lparr>child := np_add Int32 0 (child e)\<rparr>)
              (edges (tracker_anc_ex\<lparr>nodes := [\<lparr>id_n = 2, generation = 1, population = 0\<rparr>,
                   \<lparr>id_n = 3, generation = 1, population = 0\<rparr>,
                   \<lparr>id_n = 4, generation = 0, population = 0\<rparr>,
                   \<lparr>id_n = 5, generation = 0, population = 0\<rparr>], anc_samples := anc\<rparr>)))
      = Inr tables_gen4"
    if "sort_tables ms' = (\<lambda>tabs. Inr tabs)" for ms' :: msprime and anc
    unfolding tables_anc_ex by (simp add: that)
  have sm: "sort_tables msprime_ex = (\<lambda>tabs. Inr tabs)" "sort_tables ?null = (\<lambda>tabs. Inr tabs)"
    by (simp_all add: msprime_ex_def)
  have k: "simplify_tables msprime_ex
        (all_samples (anc_dtype (tracker_anc_ex\<lparr>anc_samples := [3]\<rparr>))
           (anc_samples (tracker_anc_ex\<lparr>anc_samples := [3]\<rparr>))
           (samples (tracker_anc_ex\<lparr>anc_samples := [3]\<rparr>)) 0) tables_gen4
      = Inr (([\<lparr>flags = 1, pop = 0, time = 0\<rparr>, \<lparr>flags = 1, pop = 0, time = 0\<rparr>,
               \<lparr>flags = 1, pop = 0, time = 1\<rparr>], []), [- 1, - 1, - 1, 2, 1, 0])"
    unfolding all_samples_anc_ex by (simp add: msprime_ex_def keep_samples_gen4)
  have n: "simplify_tables ?null L tables_gen4 = Inr (([], []), [- 1, - 1, - 1, - 1, - 1, - 1])" for L
    by (simp add: null_all_gen4)
  let ?tr1 = "tracker_gen0\<lparr>nodes := [\<lparr>id_n = 2, generation = 0, population = 0\<rparr>,
                                  \<lparr>id_n = 3, generation = 0, population = 0\<rparr>]\<rparr>"
  let ?tabs1 = "([\<lparr>flags = 1, pop = 0, time = 1\<rparr>, \<lparr>flags = 1, pop = 0, time = 1\<rparr>,
           \<lparr>flags = 0, pop = 0, time = 5 / 2\<rparr>]
          @ map (\<lambda>n. \<lparr>flags = 1, pop = population n, time = generation n\<rparr>) (nodes ?tr1),
         snd founders_ex
          @ map (\<lambda>e. e\<lparr>child := np_add Int32 1 (child e)\<rparr>) (edges ?tr1))"
  have st1: "sort_tables msprime_ex ?tabs1 = Inr ?tabs1"
    by (simp add: msprime_ex_def)
  have k1: "simplify_tables msprime_ex
        (all_samples (anc_dtype tracker_gen0) (anc_samples tracker_gen0) (samples tracker_gen0) 1) ?tabs1
      = Inr (([\<lparr>flags = 1, pop = 0, time = 0\<rparr>, \<lparr>flags = 1, pop = 0, time = 0\<rparr>], []),
             [- 1, - 1, - 1, 1, 0])"
    by (simp add: tracker_gen0_def all_samples_ex msprime_ex_def keep_samples_def founders_ex_def
        upt_conv_Cons)
  note i1 = simplify_stores_node_map_entries
    [OF seed_or_age_gen4_ex convert_time_anc_ex st [OF sm(1)] k]
  note i2 = simplify_stores_node_map_entries
    [OF seed_or_age_gen4_ex convert_time_anc_ex st [OF sm(2)] n]
  note i3 = simplify_stores_node_map_entries
    [OF seed_or_age_gen4_ex convert_time_anc_ex [of "[6]"] st [OF sm(2)] n]
  note i4 = simplify_stores_node_map_entries
    [OF seed_or_age_ex convert_time_gen0_ex st1 k1]
  from i1 have c1: "(case simplify msprime_ex args_ex simplifier_gen2 4 (tracker_anc_ex\<lparr>anc_samples := [3]\<rparr>) of
      Inl e \<Rightarrow> False
    | Inr (s', tr', n) \<Rightarrow> anc_samples tr' = [2] \<and> anc_dtype tr' = Int32 \<and> n = 3)"
    by simp
  from i2 have c2: "(case simplify ?null args_ex simplifier_gen2 4 (tracker_anc_ex\<lparr>anc_samples := [3]\<rparr>) of
      Inl e \<Rightarrow> False
    | Inr (s', tr', n) \<Rightarrow> anc_samples tr' = [- 1] \<and> anc_dtype tr' = Int32 \<and> n = 0)"
    by simp
  from i3 have c3: "simplify ?null args_ex simplifier_gen2 4 (tracker_anc_ex\<lparr>anc_samples := [6]\<rparr>)
      = Inl IndexError"
    by simp
  have "0 \<le> (1::int) \<and> (\<forall>i \<in> set (anc_samples tracker_gen0).
      0 \<le> i \<and> i + 1 < int (length [- 1, - 1, - 1, 1, 0 :: int]))"
    by (simp add: tracker_gen0_def)
  with i4 obtain s' tr' n' where
    r: "simplify msprime_ex args_ex (init_simplifier 2) 1 tracker_gen0 = Inr (s', tr', n')
        \<and> table_nodes s' = [\<lparr>flags = 1, pop = 0, time = 0\<rparr>, \<lparr>flags = 1, pop = 0, time = 0\<rparr>]
        \<and> table_edges s' = [] \<and> n' = int (length [\<lparr>flags = 1, pop = 0, time = 0 :: real\<rparr>, \<lparr>flags = 1, pop = 0, time = 0\<rparr>])
        \<and> length (anc_samples tr') = length (anc_samples tracker_gen0)
        \<and> set (anc_samples tr') \<subseteq> set [- 1, - 1, - 1, 1, 0]"
    by blast
  then have "simplify msprime_ex args_ex (init_simplifier 2) 1 tracker_gen0 = Inr (s', tr', n')
         \<and> n' = 2 \<and> length (anc_samples tr') = 2"
    by (simp add: tracker_gen0_def)
  then have c4: "\<exists>s' tr' n. simplify msprime_ex args_ex (init_simplifier 2) 1 tracker_gen0 = Inr (s', tr', n)
         \<and> n = 2 \<and> length (anc_samples tr') = 2"
    by blast
  from c1 c2 c3 c4 show ?thesis by (intro conjI)
qed
section \<open>Properties of the driver\<close>

lemma as_uint32_Inr: "as_uint32 x = Inr w \<Longrightarrow> w = wrap_uint32 x \<and> - (2 ^ 63) \<le> x \<and> x < 2 ^ 64"
  by (auto simp: as_uint32_def split: if_splits)

lemma as_uint32_Inl: "as_uint32 x = Inl e \<Longrightarrow> e = OverflowError"
  by (auto simp: as_uint32_def split: if_splits)

lemma as_uint32_ok: "0 \<le> x \<Longrightarrow> x < 2 ^ 64 \<Longrightarrow> as_uint32 x = Inr (wrap_uint32 x)"
  by (simp add: as_uint32_def)

lemma as_int32_Inl: "as_int32 x = Inl e \<Longrightarrow> e = OverflowError"
  by (auto simp: as_int32_def split: if_splits)

lemma as_int32_ok: "0 \<le> x \<Longrightarrow> x < 2 ^ 63 \<Longrightarrow> as_int32 x = Inr (wrap_int32 x)"
  by (simp add: as_int32_def)

lemma as_int32_overflow: "2 ^ 63 \<le> x \<Longrightarrow> as_int32 x = Inl OverflowError"
  by (simp add: as_int32_def)

lemma arange_uint32_Inr:
  assumes "arange_uint32 start stop = Inr d"
  shows "d = map (\<lambda>i. wrap_uint32 (start + int i)) [0 ..< nat (stop - start)]"
proof -
  consider "stop - start \<le> 0" | "stop - start = 1" | "2 \<le> stop - start" by linarith
  then show ?thesis
  proof cases
    case 1
    with assms show ?thesis by (simp add: arange_uint32_def)
  next
    case 2
    with assms show ?thesis
      by (auto simp: arange_uint32_def split: sum.splits dest: as_uint32_Inr)
  next
    case 3
    with assms show ?thesis
      by (auto simp: arange_uint32_def split: sum.splits)
  qed
qed

lemma arange_uint32_Inl: "arange_uint32 start stop = Inl e \<Longrightarrow> e = OverflowError"
  by (auto simp: arange_uint32_def split: if_splits sum.splits dest: as_uint32_Inl)

lemma arange_uint32_ok:
  assumes "0 \<le> start" "stop \<le> 2 ^ 64"
  shows "arange_uint32 start stop = Inr (map (\<lambda>i. wrap_uint32 (start + int i)) [0 ..< nat (stop - start)])"
proof (cases "arange_uint32 start stop")
  case (Inr d)
  with arange_uint32_Inr [OF Inr] show ?thesis by simp
next
  case (Inl e)
  consider "stop - start \<le> 0" | "stop - start = 1" | "2 \<le> stop - start" by linarith
  then show ?thesis
  proof cases
    case 1
    with Inl show ?thesis by (simp add: arange_uint32_def)
  next
    case 2
    with assms have "as_uint32 start = Inr (wrap_uint32 start)"
      by (intro as_uint32_ok) simp_all
    with Inl 2 show ?thesis by (simp add: arange_uint32_def)
  next
    case 3
    with assms have "as_uint32 start = Inr (wrap_uint32 start)"
      "as_uint32 (start + 1) = Inr (wrap_uint32 (start + 1))"
      by (intro as_uint32_ok; simp)+
    with Inl 3 show ?thesis by (simp add: arange_uint32_def)
  qed
qed

lemma arange_uint32_0:
  "arange_uint32 0 n = Inr (map (\<lambda>i. wrap_uint32 (int i)) [0 ..< nat n])"
proof (cases "arange_uint32 0 n")
  case (Inr d)
  with arange_uint32_Inr [OF Inr] show ?thesis by simp
next
  case (Inl e)
  have "as_uint32 0 = Inr (wrap_uint32 0)" "as_uint32 (0 + 1) = Inr (wrap_uint32 (0 + 1))"
    by (simp_all add: as_uint32_def)
  with Inl show ?thesis
    by (simp add: arange_uint32_def split: if_splits)
qed

lemma store_uint32_Inr:
  "store_uint32 xs i v = Inr ys \<Longrightarrow> ys = xs[i := wrap_uint32 v] \<and> i < length xs"
  by (auto simp: store_uint32_def split: if_splits sum.splits dest: as_uint32_Inr)

lemma as_edge_array_Inr:
  "as_edge_array es = Inr es' \<Longrightarrow>
     es' = map (\<lambda>e. e\<lparr>parent := wrap_int32 (parent e), child := wrap_int32 (child e)\<rparr>) es
       \<and> (\<forall>e \<in> set es. child e < 2 ^ 63)"
proof (induction es arbitrary: es')
  case Nil
  then show ?case by simp
next
  case (Cons e es)
  from Cons.prems obtain e1 es1 where
    e1: "as_edge_dt e = Inr e1" and es1: "as_edge_array es = Inr es1" and es': "es' = e1 # es1"
    by (auto split: sum.splits)
  from e1 have "e1 = e\<lparr>parent := wrap_int32 (parent e), child := wrap_int32 (child e)\<rparr> \<and> child e < 2 ^ 63"
    by (auto simp: as_edge_dt_def as_int32_def split: sum.splits if_splits)
  with Cons.IH [OF es1] show ?case by (simp add: es')
qed

lemma as_edge_array_Inl: "as_edge_array es = Inl x \<Longrightarrow> x = OverflowError"
  by (induction es) (auto simp: as_edge_dt_def split: sum.splits dest: as_int32_Inl)

lemma as_edge_array_ok:
  "\<forall>e \<in> set es. 0 \<le> parent e \<and> parent e < 2 ^ 63 \<and> 0 \<le> child e \<and> child e < 2 ^ 63 \<Longrightarrow>
     as_edge_array es
       = Inr (map (\<lambda>e. e\<lparr>parent := wrap_int32 (parent e), child := wrap_int32 (child e)\<rparr>) es)"
  by (induction es) (simp_all add: as_edge_dt_def as_int32_ok)

lemma as_edge_array_overflow:
  assumes "e \<in> set es" "2 ^ 63 \<le> child e"
  shows "as_edge_array es = Inl OverflowError"
proof (cases "as_edge_array es")
  case (Inl x)
  with as_edge_array_Inl [OF Inl] show ?thesis by simp
next
  case (Inr es')
  from as_edge_array_Inr [OF Inr] assms(1) have "child e < 2 ^ 63" by blast
  with assms(2) show ?thesis by simp
qed

lemma update_data_Inr:
  "update_data tr new_nodes new_edges new_samples new_anc = Inr tr' \<Longrightarrow>
     nodes tr' = nodes tr @ new_nodes
       \<and> edges tr' = edges tr
            @ map (\<lambda>e. e\<lparr>parent := wrap_int32 (parent e), child := wrap_int32 (child e)\<rparr>) new_edges
       \<and> samples tr' = new_samples
       \<and> anc_samples tr' = anc_samples tr @ map (astype (anc_dtype tr)) new_anc
       \<and> anc_dtype tr' = anc_dtype tr"
  by (auto simp: update_data_def split: sum.splits dest: as_edge_array_Inr)

lemma np_index_Inr: "np_index xs i = Inr v \<Longrightarrow> v \<in> set xs"
  by (auto simp: np_index_def Let_def split: if_splits)

lemma offspring_result:
  "offspring rs dips ps dip nid es nd = Inr (es', nd', nid') \<Longrightarrow>
     nid' = nid + 2 * int (length ps div 2)
       \<and> length nd' = length nd
       \<and> (\<exists>new. es' = es @ new \<and> length new = 2 * (length ps div 2)
              \<and> (\<forall>e \<in> set new. left e = 0 \<and> right e = 1 \<and> parent e \<in> set dips))"
proof (induction ps arbitrary: dip nid es nd rule: induct_list012)
  case 1
  then show ?case by simp
next
  case (2 x)
  then show ?case by simp
next
  case (3 x y zs)
  from "3.prems" obtain a b c d where
    ix: "np_index dips (2 * x) = Inr a" "np_index dips (2 * x + 1) = Inr b"
      "np_index dips (2 * y) = Inr c" "np_index dips (2 * y + 1) = Inr d"
    by (auto split: sum.splits)
  let ?p1 = "if fst (rs dip) < 1 / 2 then b else a"
  let ?p2 = "if snd (rs dip) < 1 / 2 then d else c"
  from ix have p: "?p1 \<in> set dips" "?p2 \<in> set dips"
    by (auto dest: np_index_Inr)
  from "3.prems" ix obtain nd1 nd2 where
    s1: "store_uint32 nd (2 * dip) nid = Inr nd1" and
    s2: "store_uint32 nd1 (2 * dip + 1) (nid + 1) = Inr nd2" and
    rec: "offspring rs dips zs (dip + 1) (nid + 2)
            (es @ [\<lparr>left = 0, right = 1, parent = ?p1, child = nid\<rparr>]
                @ [\<lparr>left = 0, right = 1, parent = ?p2, child = nid + 1\<rparr>]) nd2
          = Inr (es', nd', nid')"
    by (auto simp: Let_def split: sum.splits)
  from s1 s2 have len: "length nd2 = length nd"
    by (auto dest!: store_uint32_Inr)
  from "3.IH"(1) [OF rec] len p show ?case
    by auto
qed

lemma offspring_ids:
  "offspring rs dips ps dip nid es nd = Inr (es', nd', nid') \<Longrightarrow>
     (\<forall>j < 2 * (length ps div 2). nd' ! (2 * dip + j) = wrap_uint32 (nid + int j))
       \<and> (\<forall>i < 2 * dip. nd' ! i = nd ! i)
       \<and> map child (drop (length es) es') = map (\<lambda>j. nid + int j) [0 ..< 2 * (length ps div 2)]"
proof (induction ps arbitrary: dip nid es nd rule: induct_list012)
  case 1
  then show ?case by simp
next
  case (2 x)
  then show ?case by simp
next
  case (3 x y zs)
  let ?k = "length zs div 2"
  from "3.prems" obtain p1 p2 nd1 nd2 where
    s1: "store_uint32 nd (2 * dip) nid = Inr nd1" and
    s2: "store_uint32 nd1 (2 * dip + 1) (nid + 1) = Inr nd2" and
    rec: "offspring rs dips zs (dip + 1) (nid + 2)
            (es @ [\<lparr>left = 0, right = 1, parent = p1, child = nid\<rparr>]
                @ [\<lparr>left = 0, right = 1, parent = p2, child = nid + 1\<rparr>]) nd2
          = Inr (es', nd', nid')"
    by (auto simp: Let_def split: sum.splits)
  from s1 s2 have nd2: "nd2 = nd[2 * dip := wrap_uint32 nid, 2 * dip + 1 := wrap_uint32 (nid + 1)]"
    and rg: "2 * dip + 1 < length nd"
    by (auto dest!: store_uint32_Inr)
  note ih = "3.IH"(1) [OF rec]
  from ih have a: "\<forall>j < 2 * ?k. nd' ! (2 * (dip + 1) + j) = wrap_uint32 (nid + 2 + int j)"
    and b: "\<forall>i < 2 * (dip + 1). nd' ! i = nd2 ! i"
    and c: "map child (drop (Suc (Suc (length es))) es') = map (\<lambda>j. nid + 2 + int j) [0 ..< 2 * ?k]"
    by simp_all
  from offspring_result [OF rec] obtain new where
    es': "es' = es @ [\<lparr>left = 0, right = 1, parent = p1, child = nid\<rparr>,
                       \<lparr>left = 0, right = 1, parent = p2, child = nid + 1\<rparr>] @ new"
    by auto
  have len: "length (x # y # zs) div 2 = Suc ?k" by simp
  have A: "nd' ! (2 * dip + j) = wrap_uint32 (nid + int j)" if "j < 2 * Suc ?k" for j
  proof -
    consider "j = 0" | "j = 1" | "2 \<le> j" by linarith
    then show ?thesis
    proof cases
      case 1
      with b rg show ?thesis by (simp add: nd2)
    next
      case 2
      with b rg show ?thesis by (simp add: nd2)
    next
      case 3
      then obtain j' where j': "j = j' + 2" by (metis le_add_diff_inverse2)
      with that have "j' < 2 * ?k" by simp
      with a have "nd' ! (2 * (dip + 1) + j') = wrap_uint32 (nid + 2 + int j')" by blast
      then show ?thesis by (simp add: j' add.commute add.left_commute)
    qed
  qed
  have B: "nd' ! i = nd ! i" if "i < 2 * dip" for i
    using b that by (simp add: nd2)
  have C: "map child (drop (length es) es') = map (\<lambda>j. nid + int j) [0 ..< 2 * Suc ?k]"
  proof -
    have "drop (length es) es' = \<lparr>left = 0, right = 1, parent = p1, child = nid\<rparr>
        # \<lparr>left = 0, right = 1, parent = p2, child = nid + 1\<rparr> # drop (Suc (Suc (length es))) es'"
      by (simp add: es')
    then have "map child (drop (length es) es')
        = nid # (nid + 1) # map (\<lambda>j. nid + 2 + int j) [0 ..< 2 * ?k]"
      by (simp add: c)
    also have "\<dots> = map (\<lambda>j. nid + int j) [0 ..< 2 * Suc ?k]"
    proof -
      have "[0 ..< 2 * Suc ?k] = 0 # 1 # map (\<lambda>j. j + 2) [0 ..< 2 * ?k]"
        by (simp add: upt_rec [of 0] upt_rec [of "Suc 0"] map_Suc_upt [symmetric] del: upt_Suc)
      then show ?thesis by (simp add: comp_def add.assoc)
    qed
    finally show ?thesis .
  qed
  from A B C show ?case unfolding len by blast
qed

text \<open>
  The loop over the parents raises nothing but \<open>OverflowError\<close> when every
  parent is an index of an individual and \<open>new_diploids\<close> has room for the
  offspring, and it raises nothing at all when moreover the ids fit a C
  \<open>unsigned long\<close>.
\<close>

lemma offspring_Inl:
  assumes "\<forall>p \<in> set ps. 0 \<le> p \<and> 2 * p + 1 < int (length dips)"
    and "2 * dip + 2 * (length ps div 2) \<le> length nd"
    and "offspring rs dips ps dip nid es nd = Inl e"
  shows "e = OverflowError"
  using assms
proof (induction ps arbitrary: dip nid es nd rule: induct_list012)
  case 1
  then show ?case by simp
next
  case (2 x)
  then show ?case by simp
next
  case (3 x y zs)
  from "3.prems"(1) have ix: "np_index dips (2 * x) = Inr (dips ! nat (2 * x))"
    "np_index dips (2 * x + 1) = Inr (dips ! nat (2 * x + 1))"
    "np_index dips (2 * y) = Inr (dips ! nat (2 * y))"
    "np_index dips (2 * y + 1) = Inr (dips ! nat (2 * y + 1))"
    by (simp_all add: np_index_def Let_def)
  from "3.prems"(2) have rg: "2 * dip + 1 < length nd" by simp
  show ?case
  proof (cases "store_uint32 nd (2 * dip) nid")
    case (Inl e1)
    with rg have "e1 = OverflowError"
      by (auto simp: store_uint32_def split: sum.splits if_splits dest: as_uint32_Inl)
    with Inl "3.prems"(3) show ?thesis by (simp add: ix Let_def)
  next
    case nd1: (Inr nd1)
    from store_uint32_Inr [OF nd1] have l1: "length nd1 = length nd" by simp
    show ?thesis
    proof (cases "store_uint32 nd1 (Suc (2 * dip)) (nid + 1)")
      case (Inl e2)
      with rg l1 have "e2 = OverflowError"
        by (auto simp: store_uint32_def split: sum.splits if_splits dest: as_uint32_Inl)
      with Inl nd1 "3.prems"(3) show ?thesis by (simp add: ix Let_def)
    next
      case nd2: (Inr nd2)
      from store_uint32_Inr [OF nd2] l1 have l2: "length nd2 = length nd" by simp
      let ?p1 = "if fst (rs dip) < 1 / 2 then dips ! nat (2 * x + 1) else dips ! nat (2 * x)"
      let ?p2 = "if snd (rs dip) < 1 / 2 then dips ! nat (2 * y + 1) else dips ! nat (2 * y)"
      from "3.prems"(3) nd1 nd2
      have rec: "offspring rs dips zs (Suc dip) (nid + 2)
            (es @ [\<lparr>left = 0, right = 1, parent = ?p1, child = nid\<rparr>,
                   \<lparr>left = 0, right = 1, parent = ?p2, child = nid + 1\<rparr>]) nd2 = Inl e"
        by (simp add: ix Let_def)
      have "\<forall>p \<in> set zs. 0 \<le> p \<and> 2 * p + 1 < int (length dips)"
        using "3.prems"(1) by simp
      moreover have "2 * Suc dip + 2 * (length zs div 2) \<le> length nd2"
        using "3.prems"(2) l2 by simp
      ultimately show ?thesis
        using rec by (rule "3.IH"(1))
    qed
  qed
qed

lemma offspring_succeeds:
  assumes "\<forall>p \<in> set ps. 0 \<le> p \<and> 2 * p + 1 < int (length dips)"
    and "2 * dip + 2 * (length ps div 2) \<le> length nd"
    and "0 \<le> nid" "nid + 2 * int (length ps div 2) \<le> 2 ^ 64"
  shows "\<exists>es' nd'. offspring rs dips ps dip nid es nd = Inr (es', nd', nid + 2 * int (length ps div 2))"
  using assms
proof (induction ps arbitrary: dip nid es nd rule: induct_list012)
  case 1
  then show ?case by simp
next
  case (2 x)
  then show ?case by simp
next
  case (3 x y zs)
  from "3.prems"(1) have ix: "np_index dips (2 * x) = Inr (dips ! nat (2 * x))"
    "np_index dips (2 * x + 1) = Inr (dips ! nat (2 * x + 1))"
    "np_index dips (2 * y) = Inr (dips ! nat (2 * y))"
    "np_index dips (2 * y + 1) = Inr (dips ! nat (2 * y + 1))"
    by (simp_all add: np_index_def Let_def)
  from "3.prems"(2) have rg: "2 * dip + 1 < length nd" by simp
  from "3.prems"(3,4) have u: "as_uint32 nid = Inr (wrap_uint32 nid)"
    "as_uint32 (nid + 1) = Inr (wrap_uint32 (nid + 1))"
    by (intro as_uint32_ok; simp)+
  let ?nd2 = "nd[2 * dip := wrap_uint32 nid, Suc (2 * dip) := wrap_uint32 (nid + 1)]"
  let ?p1 = "if fst (rs dip) < 1 / 2 then dips ! nat (2 * x + 1) else dips ! nat (2 * x)"
  let ?p2 = "if snd (rs dip) < 1 / 2 then dips ! nat (2 * y + 1) else dips ! nat (2 * y)"
  have st: "store_uint32 nd (2 * dip) nid = Inr (nd[2 * dip := wrap_uint32 nid])"
    "store_uint32 (nd[2 * dip := wrap_uint32 nid]) (Suc (2 * dip)) (nid + 1) = Inr ?nd2"
    using rg by (simp_all add: store_uint32_def u)
  have eq: "offspring rs dips (x # y # zs) dip nid es nd
      = offspring rs dips zs (Suc dip) (nid + 2)
            (es @ [\<lparr>left = 0, right = 1, parent = ?p1, child = nid\<rparr>,
                   \<lparr>left = 0, right = 1, parent = ?p2, child = nid + 1\<rparr>]) ?nd2"
    by (simp add: ix st Let_def)
  have "\<exists>es' nd'. offspring rs dips zs (Suc dip) (nid + 2)
            (es @ [\<lparr>left = 0, right = 1, parent = ?p1, child = nid\<rparr>,
                   \<lparr>left = 0, right = 1, parent = ?p2, child = nid + 1\<rparr>]) ?nd2
      = Inr (es', nd', nid + 2 + 2 * int (length zs div 2))"
  proof (rule "3.IH"(1))
    show "\<forall>p \<in> set zs. 0 \<le> p \<and> 2 * p + 1 < int (length dips)"
      using "3.prems"(1) by simp
    show "2 * Suc dip + 2 * (length zs div 2) \<le> length ?nd2"
      using "3.prems"(2) by simp
    show "0 \<le> nid + 2" using "3.prems"(3) by simp
    show "nid + 2 + 2 * int (length zs div 2) \<le> 2 ^ 64"
      using "3.prems"(4) by simp
  qed
  then show ?case
    unfolding eq by (simp add: add.assoc)
qed

lemma wf_body_InrE:
  assumes "wf_body ms a N sched rng gen st = Inr st'"
  obtains s1 tr1 gc_rv nid dips anc c1 ids ps es nd nid2 tr2 where
    "call ms a (simplifier_of st) gen (tracker_of st) = Inr (s1, tr1, gc_rv)"
    "reset_ids N st gc_rv = Inr (nid, dips)"
    "ancestral_sampling sched rng N gen (ancestral_gen_counter st) nid = Inr (anc, c1)"
    "0 \<le> N"
    "arange_uint32 nid (nid + 2 * N) = Inr ids"
    "randint rng 0 N (2 * N) = Inr ps"
    "offspring (random_sample rng) dips ps 0 nid [] (replicate (length dips) 0) = Inr (es, nd, nid2)"
    "update_data (post_gc_cleanup tr1 gc_rv)
       (map (\<lambda>i. \<lparr>id_n = i, generation = real_of_int (gen + 1), population = 0\<rparr>) ids)
       es nd anc = Inr tr2"
    "st' = \<lparr>simplifier_of = s1, tracker_of = tr2,
            diploids = nd, next_id = nid2, ancestral_gen_counter = c1\<rparr>"
  using assms unfolding wf_body_def
  by (auto split: sum.splits prod.splits if_splits)

lemma call_gc_interval:
  "call ms a s g tr = Inr (s1, tr1, gc_rv) \<Longrightarrow> gc_interval s1 = gc_interval s"
  by (auto simp: call_def simplify_def split: if_splits sum.splits prod.splits)

lemma call_gc_rv:
  "call ms a s g tr = Inr (s1, tr1, gc_rv) \<Longrightarrow>
     gc_rv = (False, None) \<or> gc_rv = (True, Some (int (length (table_nodes s1))))"
  by (auto simp: call_def simplify_def split: if_splits sum.splits prod.splits)

lemma wf_body_gc_interval:
  "wf_body ms a N sched rng gen st = Inr st' \<Longrightarrow>
     gc_interval (simplifier_of st') = gc_interval (simplifier_of st)"
  by (erule wf_body_InrE) (auto dest: call_gc_interval)

lemma wf_body_nodes_nonempty:
  assumes "wf_body ms a N sched rng gen st = Inr st'" "0 < N"
  shows "nodes (tracker_of st') \<noteq> []"
  using assms(1)
proof (rule wf_body_InrE)
  fix nid ids tr2 s1 nd nid2 c1 tr1 gc_rv es anc
  assume ar: "arange_uint32 nid (nid + 2 * N) = Inr ids"
    and up: "update_data (post_gc_cleanup tr1 gc_rv)
       (map (\<lambda>i. \<lparr>id_n = i, generation = real_of_int (gen + 1), population = 0\<rparr>) ids)
       es nd anc = Inr tr2"
    and st': "st' = \<lparr>simplifier_of = s1, tracker_of = tr2,
            diploids = nd, next_id = nid2, ancestral_gen_counter = c1\<rparr>"
  from arange_uint32_Inr [OF ar] assms(2) have "ids \<noteq> []" by simp
  with update_data_Inr [OF up] show ?thesis by (simp add: st')
qed

lemma wf_loop_nodes_nonempty:
  "wf_loop ms a N sched rng gens st = Inr st' \<Longrightarrow> gens \<noteq> [] \<Longrightarrow> 0 < N \<Longrightarrow>
     nodes (tracker_of st') \<noteq> []"
proof (induction gens arbitrary: st)
  case Nil
  then show ?case by simp
next
  case (Cons gen gens)
  from Cons.prems(1) obtain st1 where
    b: "wf_body ms a N sched (rng gen) gen st = Inr st1" and
    l: "wf_loop ms a N sched rng gens st1 = Inr st'"
    by (auto split: sum.splits)
  show ?case
  proof (cases gens)
    case Nil
    with l have "st' = st1" by simp
    with b Cons.prems(3) show ?thesis by (simp add: wf_body_nodes_nonempty)
  next
    case (Cons g gs)
    with Cons.IH [OF l] Cons.prems(3) show ?thesis by simp
  qed
qed

lemma ancestral_sampling_take:
  assumes "k < length sched" "c \<le> k" "real_of_int (gen + 1) \<noteq> fst (sched ! k)"
  shows "ancestral_sampling (take k sched) rng N gen c nid = ancestral_sampling sched rng N gen c nid"
    and "ancestral_sampling sched rng N gen c nid = Inr (anc, c1) \<Longrightarrow> c \<le> c1 \<and> c1 \<le> k"
proof -
  show "ancestral_sampling (take k sched) rng N gen c nid = ancestral_sampling sched rng N gen c nid"
  proof (cases "c < k")
    case True
    with assms(1) show ?thesis by (simp add: ancestral_sampling_def)
  next
    case False
    with assms(2) have "c = k" by simp
    with assms(1,3) show ?thesis by (simp add: ancestral_sampling_def)
  qed
  show "ancestral_sampling sched rng N gen c nid = Inr (anc, c1) \<Longrightarrow> c \<le> c1 \<and> c1 \<le> k"
    using assms by (cases "c = k") (auto simp: ancestral_sampling_def split: if_splits sum.splits)
qed

lemma wf_body_take:
  assumes "k < length sched" "ancestral_gen_counter st \<le> k"
    "real_of_int (gen + 1) \<noteq> fst (sched ! k)"
  shows "wf_body ms a N (take k sched) rng gen st = wf_body ms a N sched rng gen st"
    and "wf_body ms a N sched rng gen st = Inr st' \<Longrightarrow>
           ancestral_gen_counter st \<le> ancestral_gen_counter st' \<and> ancestral_gen_counter st' \<le> k"
proof -
  show "wf_body ms a N (take k sched) rng gen st = wf_body ms a N sched rng gen st"
    unfolding wf_body_def ancestral_sampling_take(1) [OF assms] by (rule refl)
  assume "wf_body ms a N sched rng gen st = Inr st'"
  then show "ancestral_gen_counter st \<le> ancestral_gen_counter st' \<and> ancestral_gen_counter st' \<le> k"
    by (rule wf_body_InrE) (use ancestral_sampling_take(2) [OF assms] in auto)
qed

lemma wf_loop_take:
  assumes "k < length sched" "ancestral_gen_counter st \<le> k"
    "\<forall>gen \<in> set gens. real_of_int (gen + 1) \<noteq> fst (sched ! k)"
  shows "wf_loop ms a N (take k sched) rng gens st = wf_loop ms a N sched rng gens st
       \<and> (\<forall>st'. wf_loop ms a N sched rng gens st = Inr st' \<longrightarrow>
              ancestral_gen_counter st \<le> ancestral_gen_counter st' \<and> ancestral_gen_counter st' \<le> k)"
  using assms(2,3)
proof (induction gens arbitrary: st)
  case Nil
  then show ?case by simp
next
  case (Cons gen gens)
  from Cons.prems have ne: "real_of_int (gen + 1) \<noteq> fst (sched ! k)" by simp
  note bt = wf_body_take [OF assms(1) Cons.prems(1) ne]
  show ?case
  proof (cases "wf_body ms a N sched (rng gen) gen st")
    case (Inl e)
    then show ?thesis by (simp add: bt(1))
  next
    case (Inr st1)
    from bt(2) [OF Inr] have c: "ancestral_gen_counter st \<le> ancestral_gen_counter st1"
      "ancestral_gen_counter st1 \<le> k" by simp_all
    from Cons.prems have "\<forall>gen \<in> set gens. real_of_int (gen + 1) \<noteq> fst (sched ! k)" by simp
    from Cons.IH [OF c(2) this] c(1) show ?thesis
      by (auto simp: bt(1) Inr)
  qed
qed

lemma reset_ids_after_call:
  assumes "call ms a s g tr = Inr (s1, tr1, gc_rv)"
  shows "reset_ids N st gc_rv =
     Inr (if fst gc_rv then int (length (table_nodes s1)) else next_id st,
          if fst gc_rv then map (\<lambda>i. wrap_uint32 (int i)) [0 ..< nat (2 * N)] else diploids st)"
  using call_gc_rv [OF assms] by (auto simp: reset_ids_def arange_uint32_0)

lemma wf_body_generation:
  assumes body: "wf_body ms a N sched rng gen st = Inr st'"
    and cl: "call ms a (simplifier_of st) gen (tracker_of st) = Inr (s1, tr1, gc_rv)"
    and ri: "reset_ids N st gc_rv = Inr (nid, dips)"
    and ps: "randint rng 0 N (2 * N) = Inr ps" "length ps = nat (2 * N)"
  shows "0 \<le> N"
    and "nodes (tracker_of st') = nodes (post_gc_cleanup tr1 gc_rv)
           @ map (\<lambda>i. \<lparr>id_n = i, generation = real_of_int (gen + 1), population = 0\<rparr>)
               (map (\<lambda>i. wrap_uint32 (nid + int i)) [0 ..< nat (2 * N)])"
    and "\<exists>new_edges. edges (tracker_of st') = edges (post_gc_cleanup tr1 gc_rv)
               @ map (\<lambda>e. e\<lparr>parent := wrap_int32 (parent e), child := wrap_int32 (child e)\<rparr>) new_edges
           \<and> length new_edges = nat (2 * N)
           \<and> (\<forall>e \<in> set new_edges. left e = 0 \<and> right e = 1)
           \<and> map child new_edges = map (\<lambda>j. nid + int j) [0 ..< nat (2 * N)]"
    and "next_id st' = nid + 2 * N"
    and "samples (tracker_of st') = diploids st'"
    and "length (diploids st') = length dips"
    and "\<forall>j < nat (2 * N). diploids st' ! j = wrap_uint32 (nid + int j)"
proof -
  from body obtain anc c1 ids es nd nid2 tr2 where
    N: "0 \<le> N" and
    ar: "arange_uint32 nid (nid + 2 * N) = Inr ids" and
    off: "offspring (random_sample rng) dips ps 0 nid [] (replicate (length dips) 0) = Inr (es, nd, nid2)" and
    up: "update_data (post_gc_cleanup tr1 gc_rv)
       (map (\<lambda>i. \<lparr>id_n = i, generation = real_of_int (gen + 1), population = 0\<rparr>) ids)
       es nd anc = Inr tr2" and
    st': "st' = \<lparr>simplifier_of = s1, tracker_of = tr2,
            diploids = nd, next_id = nid2, ancestral_gen_counter = c1\<rparr>"
    by (rule wf_body_InrE) (use cl ri ps in auto)
  from N ps(2) have half: "2 * (length ps div 2) = nat (2 * N)" "int (length ps div 2) = N"
    by (simp_all add: nat_mult_distrib)
  note r = offspring_result [OF off]
  note i = offspring_ids [OF off]
  note u = update_data_Inr [OF up]
  from arange_uint32_Inr [OF ar]
  have ids: "ids = map (\<lambda>i. wrap_uint32 (nid + int i)) [0 ..< nat (2 * N)]" by simp
  show "0 \<le> N" by (rule N)
  show "nodes (tracker_of st') = nodes (post_gc_cleanup tr1 gc_rv)
           @ map (\<lambda>i. \<lparr>id_n = i, generation = real_of_int (gen + 1), population = 0\<rparr>)
               (map (\<lambda>i. wrap_uint32 (nid + int i)) [0 ..< nat (2 * N)])"
    using u by (simp add: st' ids)
  show "\<exists>new_edges. edges (tracker_of st') = edges (post_gc_cleanup tr1 gc_rv)
               @ map (\<lambda>e. e\<lparr>parent := wrap_int32 (parent e), child := wrap_int32 (child e)\<rparr>) new_edges
           \<and> length new_edges = nat (2 * N)
           \<and> (\<forall>e \<in> set new_edges. left e = 0 \<and> right e = 1)
           \<and> map child new_edges = map (\<lambda>j. nid + int j) [0 ..< nat (2 * N)]"
    using r i u by (intro exI [of _ es]) (auto simp: st' half)
  show "next_id st' = nid + 2 * N"
    using r by (simp add: st' half)
  show "samples (tracker_of st') = diploids st'"
    using u by (simp add: st')
  show "length (diploids st') = length dips"
    using r by (simp add: st')
  show "\<forall>j < nat (2 * N). diploids st' ! j = wrap_uint32 (nid + int j)"
    using i by (simp add: st' half)
qed

lemma wrap_uint32_in_range:
  "0 \<le> x \<Longrightarrow> x < 2 ^ 32 \<Longrightarrow> wrap_uint32 x = x"
  by (simp add: wrap_uint32_def)

text \<open>
  C7, amended. In a generation that completes, with \<open>nid\<close> the value of
  \<open>next_id\<close> when the offspring are made (the row count a compaction of this
  generation returned, else the value left by the generation before), and with
  \<open>randint\<close> returning its \<open>2 * N\<close> parents: as long as \<open>nid + 2 * N\<close> does not
  exceed \<open>2 ^ 32\<close>, the buffer gains exactly \<open>2 * N\<close> nodes with the ids
  \<open>nid, nid + 1, ..., nid + 2 * N - 1\<close> and exactly \<open>2 * N\<close> edges, each with
  \<open>left = 0\<close> and \<open>right = 1\<close>, and \<open>next_id\<close> ends at \<open>nid + 2 * N\<close>.
\<close>

theorem wf_body_creates_2N:
  assumes "wf_body ms a N sched rng gen st = Inr st'"
    and "call ms a (simplifier_of st) gen (tracker_of st) = Inr (s1, tr1, gc_rv)"
    and "reset_ids N st gc_rv = Inr (nid, dips)"
    and "randint rng 0 N (2 * N) = Inr ps" "length ps = nat (2 * N)"
    and "0 \<le> nid" "nid + 2 * N \<le> 2 ^ 32"
  shows "\<exists>new_nodes new_edges.
      nodes (tracker_of st') = nodes (post_gc_cleanup tr1 gc_rv) @ new_nodes
    \<and> int (length new_nodes) = 2 * N
    \<and> map id_n new_nodes = map (\<lambda>i. nid + int i) [0 ..< nat (2 * N)]
    \<and> edges (tracker_of st') = edges (post_gc_cleanup tr1 gc_rv) @ new_edges
    \<and> int (length new_edges) = 2 * N
    \<and> (\<forall>e \<in> set new_edges. left e = 0 \<and> right e = 1)
    \<and> next_id st' = nid + 2 * N"
proof -
  note g = wf_body_generation [OF assms(1-5)]
  from g(3) obtain es where es:
    "edges (tracker_of st') = edges (post_gc_cleanup tr1 gc_rv)
       @ map (\<lambda>e. e\<lparr>parent := wrap_int32 (parent e), child := wrap_int32 (child e)\<rparr>) es"
    "length es = nat (2 * N)" "\<forall>e \<in> set es. left e = 0 \<and> right e = 1"
    by blast
  let ?we = "map (\<lambda>e. e\<lparr>parent := wrap_int32 (parent e), child := wrap_int32 (child e)\<rparr>) es"
  let ?nn = "map (\<lambda>i. \<lparr>id_n = i, generation = real_of_int (gen + 1), population = 0\<rparr>)
               (map (\<lambda>i. wrap_uint32 (nid + int i)) [0 ..< nat (2 * N)])"
  have "wrap_uint32 (nid + int i) = nid + int i" if "i < nat (2 * N)" for i
    using that assms(6,7) by (intro wrap_uint32_in_range) linarith+
  then have ids: "map id_n ?nn = map (\<lambda>i. nid + int i) [0 ..< nat (2 * N)]"
    by (simp add: comp_def)
  have len: "int (length ?nn) = 2 * N"
    using g(1) by simp
  have el: "int (length ?we) = 2 * N"
    using g(1) es(2) by simp
  have lr: "\<forall>e \<in> set ?we. left e = 0 \<and> right e = 1"
    using es(3) by simp
  from g(2) ids len es(1) el lr g(4) show ?thesis
    by blast
qed

lemma wrap_uint32_range: "0 \<le> wrap_uint32 x \<and> wrap_uint32 x < 2 ^ 32"
  by (simp add: wrap_uint32_def)

lemma wf_body_after_randint:
  assumes "call ms a (simplifier_of st) gen (tracker_of st) = Inr (s1, tr1, gc_rv)"
    and "reset_ids N st gc_rv = Inr (nid, dips)"
    and "ancestral_sampling sched rng N gen (ancestral_gen_counter st) nid = Inr (anc, c1)"
    and "0 \<le> N"
    and "randint rng 0 N (2 * N) = Inr ps"
  shows "wf_body ms a N sched rng gen st =
     (case arange_uint32 nid (nid + 2 * N) of
        Inl e \<Rightarrow> Inl e
      | Inr ids \<Rightarrow>
     (case offspring (random_sample rng) dips ps 0 nid [] (replicate (length dips) 0) of
        Inl e \<Rightarrow> Inl e
      | Inr (es, nd, nid2) \<Rightarrow>
     (case update_data (post_gc_cleanup tr1 gc_rv)
             (map (\<lambda>i. \<lparr>id_n = i, generation = real_of_int (gen + 1), population = 0\<rparr>) ids)
             es nd anc of
        Inl e \<Rightarrow> Inl e
      | Inr tr2 \<Rightarrow>
          Inr \<lparr>simplifier_of = s1, tracker_of = tr2,
               diploids = nd, next_id = nid2, ancestral_gen_counter = c1\<rparr>)))"
  using assms(4)
  by (cases "arange_uint32 nid (nid + 2 * N)") (simp_all add: wf_body_def assms(1,2,3,5))

text \<open>
  C5, amended. \<open>next_id\<close> is a Python integer and nothing compares it with the
  range of the id type. Take a generation with a population of \<open>N\<close> whose
  compaction, if one is due, returns, in which the sampling and \<open>randint\<close>
  return, with \<open>2 * N\<close> parents in \<open>[0, N)\<close>; let \<open>nid\<close> be the row count of
  the reduced node table when a compaction ran, else the value the generation before
  left. If the ids \<open>nid, ..., nid + 2 * N - 1\<close> fit a C \<open>long\<close> (they are below
  \<open>2 ^ 63\<close>), the generation completes, whatever \<open>nid\<close> is: \<open>next_id\<close> ends at
  \<open>nid + 2 * N\<close>, and the ids written for the new nodes and into the sample array
  are \<open>nid + i\<close> modulo \<open>2 ^ 32\<close>, those of the buffered edges' children the
  same sums as signed 32-bit values. If one of them does not fit a C \<open>long\<close>, the
  generation raises \<open>OverflowError\<close>.
\<close>

theorem wf_body_next_id_wraps:
  assumes cl: "call ms a (simplifier_of st) gen (tracker_of st) = Inr (s1, tr1, gc_rv)"
    and nid: "nid = (if fst gc_rv then int (length (table_nodes s1)) else next_id st)"
    and dp: "\<not> fst gc_rv \<longrightarrow>
         length (diploids st) = nat (2 * N) \<and> (\<forall>d \<in> set (diploids st). 0 \<le> d \<and> d < 2 ^ 32)"
    and sa: "ancestral_sampling sched rng N gen (ancestral_gen_counter st) nid = Inr (anc, c1)"
    and ps: "randint rng 0 N (2 * N) = Inr ps" "length ps = nat (2 * N)"
      "\<forall>p \<in> set ps. 0 \<le> p \<and> p < N"
    and N: "0 \<le> N" and n0: "0 \<le> nid"
  shows "(nid + 2 * N \<le> 2 ^ 63 \<longrightarrow>
           (\<exists>st'. wf_body ms a N sched rng gen st = Inr st'
              \<and> next_id st' = nid + 2 * N
              \<and> map id_n (drop (length (nodes (post_gc_cleanup tr1 gc_rv))) (nodes (tracker_of st')))
                  = map (\<lambda>i. (nid + int i) mod 2 ^ 32) [0 ..< nat (2 * N)]
              \<and> diploids st' = map (\<lambda>i. (nid + int i) mod 2 ^ 32) [0 ..< nat (2 * N)]
              \<and> samples (tracker_of st') = diploids st'
              \<and> map child (drop (length (edges (post_gc_cleanup tr1 gc_rv))) (edges (tracker_of st')))
                  = map (\<lambda>i. wrap_int32 (nid + int i)) [0 ..< nat (2 * N)]))
       \<and> (0 < N \<and> 2 ^ 63 < nid + 2 * N \<longrightarrow>
            wf_body ms a N sched rng gen st = Inl OverflowError)"
proof -
  define dips where
    "dips = (if fst gc_rv then map (\<lambda>i. wrap_uint32 (int i)) [0 ..< nat (2 * N)] else diploids st)"
  have ri: "reset_ids N st gc_rv = Inr (nid, dips)"
    unfolding reset_ids_after_call [OF cl] nid dips_def by (rule refl)
  have ld: "length dips = nat (2 * N)"
    using dp by (simp add: dips_def)
  have rd: "\<forall>d \<in> set dips. 0 \<le> d \<and> d < 2 ^ 32"
    using dp wrap_uint32_range by (auto simp: dips_def)
  have pv: "\<forall>p \<in> set ps. 0 \<le> p \<and> 2 * p + 1 < int (length dips)"
    using ps(3) N by (auto simp: ld)
  from N ps(2) have half: "2 * (length ps div 2) = nat (2 * N)" "int (length ps div 2) = N"
    by (simp_all add: nat_mult_distrib)
  have room: "2 * 0 + 2 * (length ps div 2) \<le> length (replicate (length dips) (0::int))"
    by (simp add: half ld)
  note body = wf_body_after_randint [OF cl ri sa N ps(1)]
  let ?post = "post_gc_cleanup tr1 gc_rv"
  let ?wrap = "\<lambda>e. e\<lparr>parent := wrap_int32 (parent e), child := wrap_int32 (child e)\<rparr>"
  have edges_of: "map child es = map (\<lambda>j. nid + int j) [0 ..< nat (2 * N)]
      \<and> (\<forall>e \<in> set es. parent e \<in> set dips)
      \<and> length nd = nat (2 * N)
      \<and> (\<forall>j < nat (2 * N). nd ! j = wrap_uint32 (nid + int j))
      \<and> nid2 = nid + 2 * N"
    if off: "offspring (random_sample rng) dips ps 0 nid [] (replicate (length dips) 0) = Inr (es, nd, nid2)"
    for es nd nid2
    using offspring_result [OF off] offspring_ids [OF off] by (auto simp: half ld)
  show ?thesis
  proof (intro conjI impI)
    assume le: "nid + 2 * N \<le> 2 ^ 63"
    let ?ids = "map (\<lambda>i. wrap_uint32 (nid + int i)) [0 ..< nat (2 * N)]"
    have ar: "arange_uint32 nid (nid + 2 * N) = Inr ?ids"
      using arange_uint32_ok [of nid "nid + 2 * N"] n0 le by simp
    from le have "nid + 2 * int (length ps div 2) \<le> 2 ^ 64"
      by (simp add: half)
    from offspring_succeeds [OF pv room n0 this, of "random_sample rng" "[]"]
    obtain es nd where
      off: "offspring (random_sample rng) dips ps 0 nid [] (replicate (length dips) 0)
          = Inr (es, nd, nid + 2 * N)"
      by (auto simp: half)
    note eo = edges_of [OF off]
    have ch: "0 \<le> child e \<and> child e < 2 ^ 63" if "e \<in> set es" for e
    proof -
      from that have "child e \<in> set (map child es)" by simp
      then obtain j where "j < nat (2 * N)" "child e = nid + int j"
        using eo by auto
      with n0 le show ?thesis by linarith
    qed
    have pa: "0 \<le> parent e \<and> parent e < 2 ^ 63" if "e \<in> set es" for e
    proof -
      from that eo have "parent e \<in> set dips" by blast
      with rd have "0 \<le> parent e \<and> parent e < 2 ^ 32" by blast
      then show ?thesis by simp
    qed
    from ch pa have "as_edge_array es = Inr (map ?wrap es)"
      by (intro as_edge_array_ok) blast
    then have up: "update_data ?post
        (map (\<lambda>i. \<lparr>id_n = i, generation = real_of_int (gen + 1), population = 0\<rparr>) ?ids) es nd anc
      = Inr (?post\<lparr>nodes := nodes ?post
                  @ map (\<lambda>i. \<lparr>id_n = i, generation = real_of_int (gen + 1), population = 0\<rparr>) ?ids,
               edges := edges ?post @ map ?wrap es,
               samples := nd,
               anc_samples := anc_samples ?post @ map (astype (anc_dtype ?post)) anc\<rparr>)"
      by (simp add: update_data_def)
    let ?tr2 = "?post\<lparr>nodes := nodes ?post
                  @ map (\<lambda>i. \<lparr>id_n = i, generation = real_of_int (gen + 1), population = 0\<rparr>) ?ids,
               edges := edges ?post @ map ?wrap es,
               samples := nd,
               anc_samples := anc_samples ?post @ map (astype (anc_dtype ?post)) anc\<rparr>"
    let ?st' = "\<lparr>simplifier_of = s1, tracker_of = ?tr2,
               diploids = nd, next_id = nid + 2 * N, ancestral_gen_counter = c1\<rparr>"
    have res: "wf_body ms a N sched rng gen st = Inr ?st'"
      by (simp only: body ar off up sum.case prod.case)
    have nd: "nd = map (\<lambda>i. (nid + int i) mod 2 ^ 32) [0 ..< nat (2 * N)]"
      using eo by (intro nth_equalityI) (simp_all add: wrap_uint32_def)
    have c: "map child (map ?wrap es) = map (\<lambda>i. wrap_int32 (nid + int i)) [0 ..< nat (2 * N)]"
    proof -
      have "map child (map ?wrap es) = map wrap_int32 (map child es)"
        by (simp add: comp_def)
      also have "\<dots> = map (\<lambda>i. wrap_int32 (nid + int i)) [0 ..< nat (2 * N)]"
        using eo by (simp add: comp_def)
      finally show ?thesis .
    qed
    have p1: "next_id ?st' = nid + 2 * N" by simp
    have p2: "map id_n (drop (length (nodes ?post)) (nodes (tracker_of ?st')))
                  = map (\<lambda>i. (nid + int i) mod 2 ^ 32) [0 ..< nat (2 * N)]"
      by (simp add: comp_def wrap_uint32_def)
    have p3: "diploids ?st' = map (\<lambda>i. (nid + int i) mod 2 ^ 32) [0 ..< nat (2 * N)]"
      using nd by simp
    have p4: "samples (tracker_of ?st') = diploids ?st'" by simp
    have p5: "map child (drop (length (edges ?post)) (edges (tracker_of ?st')))
                  = map (\<lambda>i. wrap_int32 (nid + int i)) [0 ..< nat (2 * N)]"
      using c by simp
    show "\<exists>st'. wf_body ms a N sched rng gen st = Inr st'
              \<and> next_id st' = nid + 2 * N
              \<and> map id_n (drop (length (nodes ?post)) (nodes (tracker_of st')))
                  = map (\<lambda>i. (nid + int i) mod 2 ^ 32) [0 ..< nat (2 * N)]
              \<and> diploids st' = map (\<lambda>i. (nid + int i) mod 2 ^ 32) [0 ..< nat (2 * N)]
              \<and> samples (tracker_of st') = diploids st'
              \<and> map child (drop (length (edges ?post)) (edges (tracker_of st')))
                  = map (\<lambda>i. wrap_int32 (nid + int i)) [0 ..< nat (2 * N)]"
      by (rule exI [of _ ?st']) (intro conjI res p1 p2 p3 p4 p5)
  next
    assume big: "0 < N \<and> 2 ^ 63 < nid + 2 * N"
    show "wf_body ms a N sched rng gen st = Inl OverflowError"
    proof (cases "arange_uint32 nid (nid + 2 * N)")
      case (Inl e)
      with arange_uint32_Inl [OF Inl] show ?thesis
        unfolding body by simp
    next
      case ids: (Inr ids)
      show ?thesis
      proof (cases "offspring (random_sample rng) dips ps 0 nid [] (replicate (length dips) 0)")
        case (Inl e)
        from offspring_Inl [OF pv room Inl] Inl ids show ?thesis
          unfolding body by simp
      next
        case (Inr r)
        obtain es nd nid2 where r: "r = (es, nd, nid2)" by (cases r)
        note off = Inr [unfolded r]
        note eo = edges_of [OF off]
        from big have j: "nat (2 * N) - 1 < nat (2 * N)" by simp
        from eo have "length es = nat (2 * N)"
          by (metis length_map diff_zero length_upt)
        with j have "es ! (nat (2 * N) - 1) \<in> set es" by simp
        moreover have "child (es ! (nat (2 * N) - 1)) = nid + int (nat (2 * N) - 1)"
        proof -
          have "map child es ! (nat (2 * N) - 1) = nid + int (nat (2 * N) - 1)"
            using eo j by simp
          with \<open>length es = nat (2 * N)\<close> j show ?thesis by simp
        qed
        moreover from big have "(2::int) ^ 63 \<le> nid + int (nat (2 * N) - 1)"
          by linarith
        ultimately have "as_edge_array es = Inl OverflowError"
          using as_edge_array_overflow by metis
        then have "update_data (post_gc_cleanup tr1 gc_rv)
             (map (\<lambda>i. \<lparr>id_n = i, generation = real_of_int (gen + 1), population = 0\<rparr>) ids)
             es nd anc = Inl OverflowError"
          by (simp add: update_data_def)
        with ids off show ?thesis
          unfolding body by simp
      qed
    qed
  qed
qed

lemma replicate_2: "replicate 2 x = [x, x]"
  by (simp add: numeral_2_eq_2)

lemma upt_2: "[0 ..< 2] = [0, Suc 0]"
  by (simp add: upt_conv_Cons)

lemma rng_ex_randint: "randint rng_ex 0 1 2 = Inr [0, 0]"
  by (simp add: rng_ex_def replicate_2)

lemma offspring_ex:
  assumes "0 \<le> nid" "nid + 1 < 2 ^ 64"
  shows "offspring (random_sample rng_ex) [a, b] [0, 0] 0 nid [] [0, 0] =
     Inr ([\<lparr>left = 0, right = 1, parent = a, child = nid\<rparr>,
           \<lparr>left = 0, right = 1, parent = a, child = nid + 1\<rparr>],
          [wrap_uint32 nid, wrap_uint32 (nid + 1)], nid + 2)"
  using assms by (simp add: rng_ex_def np_index_def store_uint32_def as_uint32_def)

lemma arange_uint32_2:
  assumes "0 \<le> nid" "nid + 1 < 2 ^ 64"
  shows "arange_uint32 nid (nid + 2) = Inr [wrap_uint32 nid, wrap_uint32 (nid + 1)]"
  using arange_uint32_ok [of nid "nid + 2"] assms by (simp add: upt_2)

lemma arange_uint32_ex:
  "arange_uint32 0 2 = Inr [0, 1]" "arange_uint32 2 4 = Inr [2, 3]" "arange_uint32 4 6 = Inr [4, 5]"
  using arange_uint32_2 [of 0] arange_uint32_2 [of 2] arange_uint32_2 [of 4]
  by (simp_all add: wrap_uint32_def)

lemma update_data_2:
  assumes "0 \<le> p" "p < 2 ^ 63" "0 \<le> nid" "nid + 1 < 2 ^ 63"
  shows "update_data tr new_nodes
       [\<lparr>left = 0, right = 1, parent = p, child = nid\<rparr>,
        \<lparr>left = 0, right = 1, parent = p, child = nid + 1\<rparr>] new_samples new_anc =
     Inr (tr\<lparr>nodes := nodes tr @ new_nodes,
             edges := edges tr
               @ [\<lparr>left = 0, right = 1, parent = wrap_int32 p, child = wrap_int32 nid\<rparr>,
                  \<lparr>left = 0, right = 1, parent = wrap_int32 p, child = wrap_int32 (nid + 1)\<rparr>],
             samples := new_samples,
             anc_samples := anc_samples tr @ map (astype (anc_dtype tr)) new_anc\<rparr>)"
  using assms by (simp add: update_data_def as_edge_dt_def as_int32_def)

lemma call_state_ex:
  "call msprime_ex args_ex (init_simplifier 5) 3 tracker_gen0
     = Inr (init_simplifier 5, tracker_gen0, (False, None))"
  by (simp add: call_def init_simplifier_def)

lemma wf_body_state_ex:
  assumes "0 \<le> nid" "nid + 1 < 2 ^ 63"
  shows "wf_body msprime_ex args_ex 1 [] rng_ex 3 (state_ex\<lparr>next_id := nid\<rparr>) =
     Inr \<lparr>simplifier_of = init_simplifier 5,
          tracker_of =
            \<lparr>nodes = [\<lparr>id_n = 2, generation = 1, population = 0\<rparr>,
                      \<lparr>id_n = 3, generation = 1, population = 0\<rparr>,
                      \<lparr>id_n = wrap_uint32 nid, generation = 4, population = 0\<rparr>,
                      \<lparr>id_n = wrap_uint32 (nid + 1), generation = 4, population = 0\<rparr>],
             edges = [\<lparr>left = 0, right = 1, parent = 0, child = 2\<rparr>,
                      \<lparr>left = 0, right = 1, parent = 0, child = 3\<rparr>,
                      \<lparr>left = 0, right = 1, parent = 2, child = wrap_int32 nid\<rparr>,
                      \<lparr>left = 0, right = 1, parent = 2, child = wrap_int32 (nid + 1)\<rparr>],
             samples = [wrap_uint32 nid, wrap_uint32 (nid + 1)],
             anc_samples = [2, 3], anc_dtype = UInt32\<rparr>,
          diploids = [wrap_uint32 nid, wrap_uint32 (nid + 1)],
          next_id = nid + 2, ancestral_gen_counter = 0\<rparr>"
proof -
  from assms have b: "nid + 1 < 2 ^ 64" by simp
  have u: "update_data tracker_gen0 new_nodes
       [\<lparr>left = 0, right = 1, parent = 2, child = nid\<rparr>,
        \<lparr>left = 0, right = 1, parent = 2, child = nid + 1\<rparr>] new_samples [] =
     Inr (tracker_gen0\<lparr>nodes := nodes tracker_gen0 @ new_nodes,
             edges := edges tracker_gen0
               @ [\<lparr>left = 0, right = 1, parent = wrap_int32 2, child = wrap_int32 nid\<rparr>,
                  \<lparr>left = 0, right = 1, parent = wrap_int32 2, child = wrap_int32 (nid + 1)\<rparr>],
             samples := new_samples,
             anc_samples := anc_samples tracker_gen0 @ map (astype (anc_dtype tracker_gen0)) []\<rparr>)"
    for new_nodes new_samples
    using assms by (intro update_data_2) simp_all
  show ?thesis
    apply (simp add: wf_body_def state_ex_def call_state_ex reset_ids_def ancestral_sampling_def
      rng_ex_randint replicate_2 offspring_ex [OF assms(1) b] arange_uint32_2 [OF assms(1) b]
      post_gc_cleanup_def u
      del: offspring.simps)
    apply (simp add: tracker_gen0_def wrap_int32_def)
    done
qed

lemma state_ex_call:
  "call msprime_ex args_ex (simplifier_of (state_ex\<lparr>next_id := nid\<rparr>)) 3
      (tracker_of (state_ex\<lparr>next_id := nid\<rparr>))
     = Inr (init_simplifier 5, tracker_gen0, (False, None))"
  by (simp add: state_ex_def call_state_ex)

lemma state_ex_reset_ids:
  "reset_ids 1 (state_ex\<lparr>next_id := nid\<rparr>) (False, None) = Inr (nid, [2, 3])"
  by (simp add: reset_ids_def state_ex_def)

lemma rng_ex_randint_1: "randint rng_ex 0 1 (2 * 1) = Inr [0, 0]" "length [0, 0 :: int] = nat (2 * 1)"
  by (simp_all add: rng_ex_randint)

lemma state_ex_next_id: "state_ex\<lparr>next_id := 4\<rparr> = state_ex"
  by (simp add: state_ex_def)

text \<open>Generation 3 of one diploid from \<open>next_id = 4\<close>: the nodes 4 and 5, two edges.\<close>

theorem wf_body_creates_2N_witness:
  "\<exists>st'. wf_body msprime_ex args_ex 1 [] rng_ex 3 state_ex = Inr st'
      \<and> (\<exists>new_nodes new_edges.
            nodes (tracker_of st') = nodes tracker_gen0 @ new_nodes
          \<and> length new_nodes = 2
          \<and> map id_n new_nodes = [4, 5]
          \<and> edges (tracker_of st') = edges tracker_gen0 @ new_edges
          \<and> length new_edges = 2
          \<and> list_all (\<lambda>e. left e = 0 \<and> right e = 1) new_edges
          \<and> next_id st' = 6)"
proof -
  from wf_body_state_ex [of 4] obtain st' where
    body: "wf_body msprime_ex args_ex 1 [] rng_ex 3 state_ex = Inr st'"
    by (simp add: state_ex_next_id)
  have "\<exists>new_nodes new_edges.
      nodes (tracker_of st') = nodes (post_gc_cleanup tracker_gen0 (False, None)) @ new_nodes
    \<and> int (length new_nodes) = 2 * 1
    \<and> map id_n new_nodes = map (\<lambda>i. 4 + int i) [0 ..< nat (2 * 1)]
    \<and> edges (tracker_of st') = edges (post_gc_cleanup tracker_gen0 (False, None)) @ new_edges
    \<and> int (length new_edges) = 2 * 1
    \<and> (\<forall>e \<in> set new_edges. left e = 0 \<and> right e = 1)
    \<and> next_id st' = 4 + 2 * 1"
    by (rule wf_body_creates_2N [OF body state_ex_call [of 4, unfolded state_ex_next_id]
          state_ex_reset_ids [of 4, unfolded state_ex_next_id] rng_ex_randint_1]) simp_all
  then have inner: "\<exists>new_nodes new_edges.
            nodes (tracker_of st') = nodes tracker_gen0 @ new_nodes
          \<and> length new_nodes = 2
          \<and> map id_n new_nodes = [4, 5]
          \<and> edges (tracker_of st') = edges tracker_gen0 @ new_edges
          \<and> length new_edges = 2
          \<and> list_all (\<lambda>e. left e = 0 \<and> right e = 1) new_edges
          \<and> next_id st' = 6"
    by (simp add: post_gc_cleanup_def upt_2 list_all_iff)
  show ?thesis
    by (rule exI [of _ st']) (rule conjI [OF body inner])
qed

text \<open>
  C7 as stated fails when the ids leave the range of \<open>np.uint32\<close>: from
  \<open>next_id = 4294967295\<close> the two new nodes get the ids 4294967295 and 0, not
  4294967295 and 4294967296. (The same wrap as in C5.)
\<close>

theorem wf_body_ids_wrap_counterexample:
  "(case wf_body msprime_ex args_ex 1 [] rng_ex 3 (state_ex\<lparr>next_id := 4294967295\<rparr>) of
      Inl e \<Rightarrow> False
    | Inr st' \<Rightarrow>
        map id_n (drop (length (nodes tracker_gen0)) (nodes (tracker_of st'))) = [4294967295, 0]
      \<and> next_id st' = 4294967297)
   \<and> [4294967295, 0] \<noteq> [4294967295, 4294967296 :: int]"
  by (simp add: wf_body_state_ex wrap_uint32_def tracker_gen0_def)

lemma state_ex_sampling:
  "ancestral_sampling [] rng_ex 1 3 (ancestral_gen_counter (state_ex\<lparr>next_id := nid\<rparr>)) nid
     = Inr ([], 0)"
  by (simp add: ancestral_sampling_def state_ex_def)

text \<open>
  Generation 3 of one diploid: from \<open>next_id = 4\<close> the ids 4 and 5 are written;
  from \<open>next_id = 4294967296\<close> the generation completes as well, with the ids 0
  and 1; from \<open>next_id = 2 ^ 63\<close> it raises \<open>OverflowError\<close>.
\<close>

theorem wf_body_next_id_wraps_witness:
  "(\<exists>st'. wf_body msprime_ex args_ex 1 [] rng_ex 3 state_ex = Inr st'
        \<and> next_id st' = 6
        \<and> map id_n (drop (length (nodes tracker_gen0)) (nodes (tracker_of st'))) = [4, 5]
        \<and> diploids st' = [4, 5]
        \<and> samples (tracker_of st') = diploids st'
        \<and> map child (drop (length (edges tracker_gen0)) (edges (tracker_of st'))) = [4, 5])
   \<and> (\<exists>st'. wf_body msprime_ex args_ex 1 [] rng_ex 3 (state_ex\<lparr>next_id := 4294967296\<rparr>) = Inr st'
        \<and> next_id st' = 4294967298
        \<and> map id_n (drop (length (nodes tracker_gen0)) (nodes (tracker_of st'))) = [0, 1]
        \<and> diploids st' = [0, 1]
        \<and> samples (tracker_of st') = diploids st'
        \<and> map child (drop (length (edges tracker_gen0)) (edges (tracker_of st'))) = [0, 1])
   \<and> wf_body msprime_ex args_ex 1 [] rng_ex 3 (state_ex\<lparr>next_id := 9223372036854775808\<rparr>)
        = Inl OverflowError"
proof -
  have dp: "\<not> fst (False, None :: int option) \<longrightarrow>
      length (diploids (state_ex\<lparr>next_id := nid\<rparr>)) = nat (2 * 1)
      \<and> (\<forall>d \<in> set (diploids (state_ex\<lparr>next_id := nid\<rparr>)). 0 \<le> d \<and> d < 2 ^ 32)" for nid
    by (simp add: state_ex_def)
  have nid: "nid = (if fst (False, None :: int option) then int (length (table_nodes (init_simplifier 5)))
      else next_id (state_ex\<lparr>next_id := nid\<rparr>))" for nid
    by simp
  have pv: "\<forall>p \<in> set [0, 0 :: int]. 0 \<le> p \<and> p < 1" by simp
  note inst = wf_body_next_id_wraps [OF state_ex_call nid dp state_ex_sampling rng_ex_randint_1 pv]
  have a: "\<exists>st'. wf_body msprime_ex args_ex 1 [] rng_ex 3 state_ex = Inr st'
        \<and> next_id st' = 6
        \<and> map id_n (drop (length (nodes tracker_gen0)) (nodes (tracker_of st'))) = [4, 5]
        \<and> diploids st' = [4, 5]
        \<and> samples (tracker_of st') = diploids st'
        \<and> map child (drop (length (edges tracker_gen0)) (edges (tracker_of st'))) = [4, 5]"
    using inst [of 4] by (simp add: state_ex_next_id post_gc_cleanup_def upt_2 wrap_int32_def)
  have b: "\<exists>st'. wf_body msprime_ex args_ex 1 [] rng_ex 3 (state_ex\<lparr>next_id := 4294967296\<rparr>) = Inr st'
        \<and> next_id st' = 4294967298
        \<and> map id_n (drop (length (nodes tracker_gen0)) (nodes (tracker_of st'))) = [0, 1]
        \<and> diploids st' = [0, 1]
        \<and> samples (tracker_of st') = diploids st'
        \<and> map child (drop (length (edges tracker_gen0)) (edges (tracker_of st'))) = [0, 1]"
    using inst [of 4294967296] by (simp add: post_gc_cleanup_def upt_2 wrap_int32_def)
  have c: "wf_body msprime_ex args_ex 1 [] rng_ex 3 (state_ex\<lparr>next_id := 9223372036854775808\<rparr>)
        = Inl OverflowError"
    using inst [of 9223372036854775808] by simp
  from a b c show ?thesis by (intro conjI)
qed

lemma wf_unfold:
  "wf ms a N s tr sched ngens rng =
     wf_loop ms a N sched rng (map int [0 ..< nat ngens])
       \<lparr>simplifier_of = s, tracker_of = tr\<lparr>nodes := []\<rparr>,
        diploids = map (\<lambda>i. wrap_uint32 (int i)) [0 ..< nat (2 * N)],
        next_id = int (length (map (\<lambda>i. wrap_uint32 (int i)) [0 ..< nat (2 * N)])),
        ancestral_gen_counter = 0\<rparr>"
  by (simp only: wf_def arange_uint32_0 sum.case)

text \<open>
  C10. If the generation of entry \<open>k\<close> of the schedule differs from \<open>gen + 1\<close> for
  every \<open>gen\<close> in \<open>[0, ngens)\<close>, then every run of at most \<open>ngens\<close> generations
  is the same, errors included, as the run with the schedule cut off before entry
  \<open>k\<close>: the entry and all later ones never fire and raise nothing; and the
  schedule pointer never passes \<open>k\<close>.
\<close>

theorem wf_unmatched_entry_never_fires:
  assumes "k < length anc_sample_gen"
    and "\<forall>gen. 0 \<le> gen \<and> gen < ngens \<longrightarrow> real_of_int (gen + 1) \<noteq> fst (anc_sample_gen ! k)"
  shows "\<forall>m \<le> ngens.
           wf ms a N s tr (take k anc_sample_gen) m rng = wf ms a N s tr anc_sample_gen m rng
         \<and> (\<forall>st'. wf ms a N s tr anc_sample_gen m rng = Inr st' \<longrightarrow> ancestral_gen_counter st' \<le> k)"
proof (intro allI impI)
  fix m :: int
  assume m: "m \<le> ngens"
  let ?st0 = "\<lparr>simplifier_of = s, tracker_of = tr\<lparr>nodes := []\<rparr>,
        diploids = map (\<lambda>i. wrap_uint32 (int i)) [0 ..< nat (2 * N)],
        next_id = int (length (map (\<lambda>i. wrap_uint32 (int i)) [0 ..< nat (2 * N)])),
        ancestral_gen_counter = 0\<rparr>"
  have gens: "\<forall>gen \<in> set (map int [0 ..< nat m]). real_of_int (gen + 1) \<noteq> fst (anc_sample_gen ! k)"
  proof
    fix gen assume "gen \<in> set (map int [0 ..< nat m])"
    then have "0 \<le> gen \<and> gen < ngens" using m by auto
    with assms(2) show "real_of_int (gen + 1) \<noteq> fst (anc_sample_gen ! k)" by blast
  qed
  have c0: "ancestral_gen_counter ?st0 \<le> k" by simp
  from wf_loop_take [OF assms(1) c0 gens, of ms a N rng]
  show "wf ms a N s tr (take k anc_sample_gen) m rng = wf ms a N s tr anc_sample_gen m rng
         \<and> (\<forall>st'. wf ms a N s tr anc_sample_gen m rng = Inr st' \<longrightarrow> ancestral_gen_counter st' \<le> k)"
    unfolding wf_unfold by blast
qed

lemma simplify_gen1_no_anc_ex:
  "simplify msprime_ex args_ex (init_simplifier I) 1 (tracker_gen0\<lparr>anc_samples := []\<rparr>) =
   Inr (\<lparr>table_nodes = [\<lparr>flags = 1, pop = 0, time = 0\<rparr>, \<lparr>flags = 1, pop = 0, time = 0\<rparr>],
         table_edges = [], gc_interval = I, last_gc_time = 0\<rparr>,
        \<lparr>nodes = [\<lparr>id_n = 2, generation = 0, population = 0\<rparr>,
                  \<lparr>id_n = 3, generation = 0, population = 0\<rparr>],
         edges = [\<lparr>left = 0, right = 1, parent = 0, child = 2\<rparr>,
                  \<lparr>left = 0, right = 1, parent = 0, child = 3\<rparr>],
         samples = [2, 3], anc_samples = [], anc_dtype = Float64\<rparr>, 2)"
  by (simp add: simplify_def seed_or_age_def msprime_ex_def args_ex_def init_simplifier_def
     tracker_gen0_def convert_time_def founders_ex_def all_samples_def keep_samples_def np_index_def
     np_add_def wrap_uint32_def wrap_int32_def upt_conv_Cons)

lemma wf_body_gen0_ex:
  "wf_body msprime_ex args_ex 1 [] rng_ex 0
      \<lparr>simplifier_of = init_simplifier I, tracker_of = init_tracker,
       diploids = [0, 1], next_id = 2, ancestral_gen_counter = 0\<rparr> =
   Inr \<lparr>simplifier_of = init_simplifier I, tracker_of = tracker_gen0\<lparr>anc_samples := []\<rparr>,
        diploids = [2, 3], next_id = 4, ancestral_gen_counter = 0\<rparr>"
  apply (simp add: wf_body_def call_def reset_ids_def ancestral_sampling_def
      rng_ex_randint replicate_2 offspring_ex arange_uint32_ex post_gc_cleanup_def
      del: offspring.simps)
  apply (simp add: init_tracker_def tracker_gen0_def update_data_def as_edge_dt_def
      as_int32_def wrap_int32_def wrap_uint32_def)
  done

lemma wf_body_gen1_ex:
  assumes "I \<noteq> 0"
  shows "wf_body msprime_ex args_ex 1 [] rng_ex 1
      \<lparr>simplifier_of = init_simplifier I, tracker_of = tracker_gen0\<lparr>anc_samples := []\<rparr>,
        diploids = [2, 3], next_id = 4, ancestral_gen_counter = 0\<rparr> = Inr (state_gen1 I)"
proof -
  have c: "call msprime_ex args_ex (init_simplifier I) 1 (tracker_gen0\<lparr>anc_samples := []\<rparr>) =
     Inr (\<lparr>table_nodes = [\<lparr>flags = 1, pop = 0, time = 0\<rparr>, \<lparr>flags = 1, pop = 0, time = 0\<rparr>],
           table_edges = [], gc_interval = I, last_gc_time = 1\<rparr>,
          \<lparr>nodes = [\<lparr>id_n = 2, generation = 0, population = 0\<rparr>,
                  \<lparr>id_n = 3, generation = 0, population = 0\<rparr>],
           edges = [\<lparr>left = 0, right = 1, parent = 0, child = 2\<rparr>,
                  \<lparr>left = 0, right = 1, parent = 0, child = 3\<rparr>],
           samples = [2, 3], anc_samples = [], anc_dtype = Float64\<rparr>, (True, Some 2))"
    using assms by (simp add: call_def simplify_gen1_no_anc_ex) (simp add: init_simplifier_def)
  show ?thesis
    apply (simp add: wf_body_def c reset_ids_def ancestral_sampling_def
      rng_ex_randint replicate_2 offspring_ex arange_uint32_ex post_gc_cleanup_def
      del: offspring.simps)
    apply (simp add: state_gen1_def update_data_def reset_data_def as_edge_dt_def
      as_int32_def wrap_int32_def wrap_uint32_def)
    done
qed

lemma upt_nat_2: "map int [0 ..< 2] = [0, 1]"
  by (simp add: upt_conv_Cons)

lemma wf_two_generations_ex:
  assumes "I \<noteq> 0"
  shows "wf msprime_ex args_ex 1 (init_simplifier I) init_tracker [] 2 (\<lambda>g. rng_ex) = Inr (state_gen1 I)"
proof -
  have t: "init_tracker\<lparr>nodes := []\<rparr> = init_tracker"
    by (simp add: init_tracker_def)
  show ?thesis
    by (simp add: wf_def upt_nat_2 arange_uint32_ex t wf_body_gen0_ex wf_body_gen1_ex [OF assms])
qed

text \<open>
  A schedule whose first entry has generation 0: after two generations nothing has
  fired, the entry for generation 2 included.
\<close>

theorem wf_unmatched_entry_never_fires_witness:
  "(0::nat) < length [(0 :: real, 1 :: int), (2, 1)]
   \<and> wf msprime_ex args_ex 1 (init_simplifier 5) init_tracker [(0, 1), (2, 1)] 2 (\<lambda>g. rng_ex)
       = Inr (state_gen1 5)
   \<and> ancestral_gen_counter (state_gen1 5) = 0
   \<and> anc_samples (tracker_of (state_gen1 5)) = []"
proof -
  have k: "(0::nat) < length [(0 :: real, 1 :: int), (2, 1)]" by simp
  have h: "\<forall>gen. 0 \<le> gen \<and> gen < (2::int)
      \<longrightarrow> real_of_int (gen + 1) \<noteq> fst ([(0 :: real, 1 :: int), (2, 1)] ! 0)"
    by auto
  from wf_unmatched_entry_never_fires [OF k h, of msprime_ex args_ex 1 "init_simplifier 5"
      init_tracker "\<lambda>g. rng_ex"]
  have "wf msprime_ex args_ex 1 (init_simplifier 5) init_tracker (take 0 [(0, 1), (2, 1)]) 2 (\<lambda>g. rng_ex)
      = wf msprime_ex args_ex 1 (init_simplifier 5) init_tracker [(0, 1), (2, 1)] 2 (\<lambda>g. rng_ex)"
    by simp
  then have "wf msprime_ex args_ex 1 (init_simplifier 5) init_tracker [(0, 1), (2, 1)] 2 (\<lambda>g. rng_ex)
      = Inr (state_gen1 5)"
    by (simp add: wf_two_generations_ex)
  then show ?thesis by (simp add: state_gen1_def)
qed

lemma call_zero_interval:
  "gc_interval s = 0 \<Longrightarrow> 0 < g \<Longrightarrow> call ms a s g tr = Inl ZeroDivisionError"
  by (simp add: call_def)

lemma wf_zero_interval:
  assumes "gc_interval s = 0" "2 \<le> ngens"
  shows "isl (wf ms a N s tr sched ngens rng)"
    and "wf ms a N s tr sched 1 rng = Inr st1 \<Longrightarrow> wf ms a N s tr sched ngens rng = Inl ZeroDivisionError"
proof -
  let ?st0 = "\<lparr>simplifier_of = s, tracker_of = tr\<lparr>nodes := []\<rparr>,
        diploids = map (\<lambda>i. wrap_uint32 (int i)) [0 ..< nat (2 * N)],
        next_id = int (length (map (\<lambda>i. wrap_uint32 (int i)) [0 ..< nat (2 * N)])),
        ancestral_gen_counter = 0\<rparr>"
  from assms(2) have "[0 ..< nat ngens] = 0 # Suc 0 # [Suc (Suc 0) ..< nat ngens]"
    by (simp add: upt_conv_Cons)
  then have gens: "map int [0 ..< nat ngens] = 0 # 1 # map int [Suc (Suc 0) ..< nat ngens]"
    by simp
  have one: "wf ms a N s tr sched 1 rng = wf_body ms a N sched (rng 0) 0 ?st0"
    unfolding wf_unfold by (simp split: sum.splits)
  have step: "wf ms a N s tr sched ngens rng = Inl ZeroDivisionError"
    if b: "wf_body ms a N sched (rng 0) 0 ?st0 = Inr st" for st
  proof -
    from wf_body_gc_interval [OF b] assms(1) have "gc_interval (simplifier_of st) = 0" by simp
    then have "call ms a (simplifier_of st) 1 (tracker_of st) = Inl ZeroDivisionError"
      by (simp add: call_zero_interval)
    then have "wf_body ms a N sched (rng 1) 1 st = Inl ZeroDivisionError"
      by (simp add: wf_body_def)
    with b show ?thesis unfolding wf_unfold gens by simp
  qed
  show "isl (wf ms a N s tr sched ngens rng)"
  proof (cases "wf_body ms a N sched (rng 0) 0 ?st0")
    case (Inl e)
    then show ?thesis unfolding wf_unfold gens by simp
  next
    case (Inr st)
    from step [OF this] show ?thesis by simp
  qed
  show "wf ms a N s tr sched 1 rng = Inr st1 \<Longrightarrow> wf ms a N s tr sched ngens rng = Inl ZeroDivisionError"
    using step [of st1] by (simp add: one)
qed

lemma main_zero_interval:
  assumes "gc a = 0" "1 \<le> popsize a"
  shows "isl (main ms a rng rng_final)"
proof -
  have s: "gc_interval (init_simplifier (gc a)) = 0"
    using assms(1) by (simp add: init_simplifier_def)
  have n: "2 \<le> SIMLEN * popsize a"
    using assms(2) by (simp add: SIMLEN_def)
  let ?sched = "map (\<lambda>i. (real_of_int (SIMLEN * popsize a * (int i + 1)) / real_of_int SIMLEN,
                       max (py_round (real_of_int (popsize a) / 200)) 1))
              [0 ..< nat (SIMLEN - 2)]"
  from wf_zero_interval(1) [OF s n, of ms a "popsize a" init_tracker ?sched rng]
  obtain e where "wf ms a (popsize a) (init_simplifier (gc a)) init_tracker ?sched
      (SIMLEN * popsize a) rng = Inl e"
    by (auto simp: isl_def)
  then show ?thesis
    by (simp add: main_def Let_def)
qed

lemma wf_final_flush:
  assumes "wf ms a N s tr sched ngens rng = Inr st" "1 \<le> ngens" "1 \<le> N"
  shows "nodes (tracker_of st) \<noteq> []"
    and "final_flush ms a ngens (simplifier_of st) (tracker_of st) =
     (case simplify ms a (simplifier_of st) ngens (tracker_of st) of
        Inl e \<Rightarrow> Inl e
      | Inr (s', tr', n) \<Rightarrow> Inr (s', tr'))"
proof -
  from assms(2) have ne: "map int [0 ..< nat ngens] \<noteq> []" by simp
  from assms(3) have N: "0 < N" by simp
  from assms(1) show "nodes (tracker_of st) \<noteq> []"
    unfolding wf_unfold using ne N by (rule wf_loop_nodes_nonempty)
  then show "final_flush ms a ngens (simplifier_of st) (tracker_of st) =
     (case simplify ms a (simplifier_of st) ngens (tracker_of st) of
        Inl e \<Rightarrow> Inl e
      | Inr (s', tr', n) \<Rightarrow> Inr (s', tr'))"
    by (simp add: final_flush_def)
qed

text \<open>
  C3, amended. With the interval zero, \<open>__call__\<close> raises \<open>ZeroDivisionError\<close> at
  every generation \<open>g > 0\<close>: a run of two or more generations fails (at generation
  1 when generation 0 completes) and \<open>__main__\<close> never reaches the flush. With a
  negative interval \<open>__call__\<close> raises nothing of its own; it returns
  \<open>(False, None)\<close>, changing nothing, when \<open>g\<close> is neither 1 nor a multiple of the
  interval, and compacts otherwise. Whenever the driver returns after one generation
  or more of a population of at least one diploid, the buffer holds nodes and the
  flush of \<open>__main__\<close> runs \<open>simplify\<close>.
\<close>

theorem degenerate_interval:
  "(gc_interval s = 0 \<and> 0 < g \<longrightarrow> call ms a s g tr = Inl ZeroDivisionError)
   \<and> (gc_interval s < 0 \<and> 0 < g \<and> g \<noteq> 1 \<and> g mod gc_interval s \<noteq> 0 \<longrightarrow>
        call ms a s g tr = Inr (s, tr, (False, None)))
   \<and> (gc_interval s < 0 \<and> 0 < g \<and> (g = 1 \<or> g mod gc_interval s = 0) \<longrightarrow>
        call ms a s g tr =
          (case simplify ms a s g tr of
             Inl e \<Rightarrow> Inl e
           | Inr (s', tr', n) \<Rightarrow> Inr (s'\<lparr>last_gc_time := g\<rparr>, tr', (True, Some n))))
   \<and> (gc_interval s = 0 \<and> 2 \<le> ngens \<longrightarrow>
        isl (wf ms a N s tr sched ngens rng)
        \<and> (\<forall>st1. wf ms a N s tr sched 1 rng = Inr st1 \<longrightarrow>
              wf ms a N s tr sched ngens rng = Inl ZeroDivisionError))
   \<and> (gc a = 0 \<and> 1 \<le> popsize a \<longrightarrow> isl (main ms a rng rng_final))
   \<and> (wf ms a N s tr sched ngens rng = Inr st \<and> 1 \<le> ngens \<and> 1 \<le> N \<longrightarrow>
        nodes (tracker_of st) \<noteq> []
        \<and> final_flush ms a ngens (simplifier_of st) (tracker_of st) =
          (case simplify ms a (simplifier_of st) ngens (tracker_of st) of
             Inl e \<Rightarrow> Inl e
           | Inr (s', tr', n) \<Rightarrow> Inr (s', tr')))"
proof (intro conjI impI allI)
  show "call ms a s g tr = Inl ZeroDivisionError" if "gc_interval s = 0 \<and> 0 < g"
    using that by (simp add: call_zero_interval)
  show "call ms a s g tr = Inr (s, tr, (False, None))"
    if "gc_interval s < 0 \<and> 0 < g \<and> g \<noteq> 1 \<and> g mod gc_interval s \<noteq> 0"
    using that by (simp add: call_def)
  show "call ms a s g tr =
          (case simplify ms a s g tr of
             Inl e \<Rightarrow> Inl e
           | Inr (s', tr', n) \<Rightarrow> Inr (s'\<lparr>last_gc_time := g\<rparr>, tr', (True, Some n)))"
    if "gc_interval s < 0 \<and> 0 < g \<and> (g = 1 \<or> g mod gc_interval s = 0)"
    using that by (auto simp: call_def)
  show "isl (wf ms a N s tr sched ngens rng)" if "gc_interval s = 0 \<and> 2 \<le> ngens"
    using that wf_zero_interval(1) by blast
  show "wf ms a N s tr sched ngens rng = Inl ZeroDivisionError"
    if "gc_interval s = 0 \<and> 2 \<le> ngens" "wf ms a N s tr sched 1 rng = Inr st1" for st1
    using that wf_zero_interval(2) by blast
  show "isl (main ms a rng rng_final)" if "gc a = 0 \<and> 1 \<le> popsize a"
    using that main_zero_interval by blast
  show "nodes (tracker_of st) \<noteq> []"
    if "wf ms a N s tr sched ngens rng = Inr st \<and> 1 \<le> ngens \<and> 1 \<le> N"
    using that wf_final_flush(1) by blast
  show "final_flush ms a ngens (simplifier_of st) (tracker_of st) =
          (case simplify ms a (simplifier_of st) ngens (tracker_of st) of
             Inl e \<Rightarrow> Inl e
           | Inr (s', tr', n) \<Rightarrow> Inr (s', tr'))"
    if "wf ms a N s tr sched ngens rng = Inr st \<and> 1 \<le> ngens \<and> 1 \<le> N"
    using that wf_final_flush(2) by blast
qed

text \<open>
  The source never looks at \<open>N\<close>: with \<open>N = 0\<close> a generation makes no node,
  the driver returns with an empty buffer, and the flush does nothing.
\<close>

lemma wf_zero_population_ex:
  "wf msprime_ex args_ex 0 (init_simplifier 5) init_tracker [] 1 (\<lambda>g. rng_ex) =
     Inr \<lparr>simplifier_of = init_simplifier 5, tracker_of = init_tracker,
          diploids = [], next_id = 0, ancestral_gen_counter = 0\<rparr>"
  "final_flush msprime_ex args_ex 1 (init_simplifier 5) init_tracker
     = Inr (init_simplifier 5, init_tracker)"
  by (simp_all add: wf_def arange_uint32_def wf_body_def call_def reset_ids_def
      ancestral_sampling_def rng_ex_def post_gc_cleanup_def update_data_def init_tracker_def
      final_flush_def)

lemma wf_one_generation_ex:
  "wf msprime_ex args_ex 1 (init_simplifier I) init_tracker [] 1 (\<lambda>g. rng_ex) =
     Inr \<lparr>simplifier_of = init_simplifier I, tracker_of = tracker_gen0\<lparr>anc_samples := []\<rparr>,
        diploids = [2, 3], next_id = 4, ancestral_gen_counter = 0\<rparr>"
proof -
  have t: "init_tracker\<lparr>nodes := []\<rparr> = init_tracker"
    by (simp add: init_tracker_def)
  show ?thesis
    by (simp add: wf_def arange_uint32_ex t wf_body_gen0_ex)
qed

lemma simplify_gen2_ex:
  "simplify msprime_ex args_ex (simplifier_of (state_gen1 I)) 2 (tracker_of (state_gen1 I)) =
     Inr (\<lparr>table_nodes = [\<lparr>flags = 1, pop = 0, time = 0\<rparr>, \<lparr>flags = 1, pop = 0, time = 0\<rparr>],
           table_edges = [], gc_interval = I, last_gc_time = 1\<rparr>,
          \<lparr>nodes = [\<lparr>id_n = 2, generation = 0, population = 0\<rparr>,
                    \<lparr>id_n = 3, generation = 0, population = 0\<rparr>],
           edges = [\<lparr>left = 0, right = 1, parent = 0, child = 2\<rparr>,
                    \<lparr>left = 0, right = 1, parent = 0, child = 3\<rparr>],
           samples = [2, 3], anc_samples = [], anc_dtype = Float64\<rparr>, 2)"
  by (simp add: simplify_def seed_or_age_def msprime_ex_def args_ex_def state_gen1_def
     convert_time_def all_samples_def keep_samples_def np_index_def
     np_add_def wrap_uint32_def wrap_int32_def upt_conv_Cons)

lemma simplify_gen4_ex:
  "simplify msprime_ex args_ex (simplifier_gen2\<lparr>gc_interval := I\<rparr>) 4 tracker_gen3 =
     Inr (\<lparr>table_nodes = [\<lparr>flags = 1, pop = 0, time = 0\<rparr>, \<lparr>flags = 1, pop = 0, time = 0\<rparr>],
           table_edges = [], gc_interval = I, last_gc_time = 2\<rparr>,
          tracker_gen3\<lparr>nodes := [\<lparr>id_n = 2, generation = 1, population = 0\<rparr>,
               \<lparr>id_n = 3, generation = 1, population = 0\<rparr>,
               \<lparr>id_n = 4, generation = 0, population = 0\<rparr>,
               \<lparr>id_n = 5, generation = 0, population = 0\<rparr>]\<rparr>, 2)"
  by (simp add: simplify_def seed_or_age_def msprime_ex_def args_ex_def simplifier_gen2_def
     tracker_gen3_def convert_time_def all_samples_def keep_samples_def np_index_def
     np_add_def wrap_uint32_def wrap_int32_def upt_conv_Cons)

text \<open>
  C3 as stated fails: with the interval 0 the call at generation 3 raises; with the
  interval \<open>-2\<close> the call at generation 4 compacts; and with the interval 0 a run
  of two generations ends in \<open>ZeroDivisionError\<close>, before any flush.
\<close>

theorem degenerate_interval_counterexample:
  "call msprime_ex args_ex (init_simplifier 0) 3 tracker_gen0 = Inl ZeroDivisionError
   \<and> (case call msprime_ex args_ex (simplifier_gen2\<lparr>gc_interval := - 2\<rparr>) 4 tracker_gen3 of
        Inl e \<Rightarrow> False
      | Inr (s', tr', gc_rv) \<Rightarrow> gc_rv = (True, Some 2) \<and> last_gc_time s' = 4)
   \<and> wf msprime_ex args_ex 1 (init_simplifier 0) init_tracker [] 2 (\<lambda>g. rng_ex)
        = Inl ZeroDivisionError"
proof -
  have a: "call msprime_ex args_ex (init_simplifier 0) 3 tracker_gen0 = Inl ZeroDivisionError"
    by (simp add: call_def init_simplifier_def)
  have g: "gc_interval (simplifier_gen2\<lparr>gc_interval := - 2\<rparr>) = - 2" by simp
  have b: "(case call msprime_ex args_ex (simplifier_gen2\<lparr>gc_interval := - 2\<rparr>) 4 tracker_gen3 of
        Inl e \<Rightarrow> False
      | Inr (s', tr', gc_rv) \<Rightarrow> gc_rv = (True, Some 2) \<and> last_gc_time s' = 4)"
    unfolding call_def g by (simp add: simplify_gen4_ex)
  have z: "gc_interval (init_simplifier 0) = 0" by (simp add: init_simplifier_def)
  have c: "wf msprime_ex args_ex 1 (init_simplifier 0) init_tracker [] 2 (\<lambda>g. rng_ex)
        = Inl ZeroDivisionError"
    by (rule wf_zero_interval(2) [OF z _ wf_one_generation_ex]) simp
  from a b c show ?thesis by simp
qed

text \<open>The same at concrete inputs, with a run of two generations at the interval \<open>-3\<close>.\<close>

theorem degenerate_interval_witness:
  "call msprime_ex args_ex (init_simplifier 0) 3 tracker_gen0 = Inl ZeroDivisionError
   \<and> call msprime_ex args_ex (init_simplifier (- 2)) 3 tracker_gen0
        = Inr (init_simplifier (- 2), tracker_gen0, (False, None))
   \<and> (case call msprime_ex args_ex (simplifier_gen2\<lparr>gc_interval := - 2\<rparr>) 4 tracker_gen3 of
        Inl e \<Rightarrow> False
      | Inr (s', tr', gc_rv) \<Rightarrow> gc_rv = (True, Some 2) \<and> last_gc_time s' = 4)
   \<and> wf msprime_ex args_ex 1 (init_simplifier 0) init_tracker [] 2 (\<lambda>g. rng_ex)
        = Inl ZeroDivisionError
   \<and> isl (main msprime_ex (args_ex\<lparr>gc := 0\<rparr>) (\<lambda>g. rng_ex) rng_ex)
   \<and> wf msprime_ex args_ex 1 (init_simplifier (- 3)) init_tracker [] 2 (\<lambda>g. rng_ex)
        = Inr (state_gen1 (- 3))
   \<and> nodes (tracker_of (state_gen1 (- 3))) \<noteq> []
   \<and> (case final_flush msprime_ex args_ex 2 (simplifier_of (state_gen1 (- 3)))
              (tracker_of (state_gen1 (- 3))) of
        Inl e \<Rightarrow> False
      | Inr (s', tr') \<Rightarrow> length (table_nodes s') = 2 \<and> anc_samples tr' = [])"
proof -
  have z: "gc_interval (init_simplifier 0) = 0" "gc_interval (init_simplifier (- 2)) = - 2"
    "gc_interval (simplifier_gen2\<lparr>gc_interval := - 2\<rparr>) = - 2"
    "gc (args_ex\<lparr>gc := 0\<rparr>) = 0" "popsize (args_ex\<lparr>gc := 0\<rparr>) = 1"
    by (simp_all add: init_simplifier_def args_ex_def)
  note i1 = degenerate_interval [where s = "init_simplifier 0" and g = 3 and ms = msprime_ex
      and a = args_ex and tr = tracker_gen0]
  from i1 z have c1: "call msprime_ex args_ex (init_simplifier 0) 3 tracker_gen0 = Inl ZeroDivisionError"
    by simp
  note i2 = degenerate_interval [where s = "init_simplifier (- 2)" and g = 3 and ms = msprime_ex
      and a = args_ex and tr = tracker_gen0]
  from i2 z have c2: "call msprime_ex args_ex (init_simplifier (- 2)) 3 tracker_gen0
        = Inr (init_simplifier (- 2), tracker_gen0, (False, None))"
    by simp
  note i3 = degenerate_interval [where s = "simplifier_gen2\<lparr>gc_interval := - 2\<rparr>" and g = 4
      and ms = msprime_ex and a = args_ex and tr = tracker_gen3]
  from i3 z have "call msprime_ex args_ex (simplifier_gen2\<lparr>gc_interval := - 2\<rparr>) 4 tracker_gen3 =
          (case simplify msprime_ex args_ex (simplifier_gen2\<lparr>gc_interval := - 2\<rparr>) 4 tracker_gen3 of
             Inl e \<Rightarrow> Inl e
           | Inr (s', tr', n) \<Rightarrow> Inr (s'\<lparr>last_gc_time := 4\<rparr>, tr', (True, Some n)))"
    by simp
  then have c3: "(case call msprime_ex args_ex (simplifier_gen2\<lparr>gc_interval := - 2\<rparr>) 4 tracker_gen3 of
        Inl e \<Rightarrow> False
      | Inr (s', tr', gc_rv) \<Rightarrow> gc_rv = (True, Some 2) \<and> last_gc_time s' = 4)"
    by (simp add: simplify_gen4_ex)
  note i4 = degenerate_interval [where s = "init_simplifier 0" and ms = msprime_ex
      and a = args_ex and tr = init_tracker and N = 1 and sched = "[]" and ngens = 2
      and rng = "\<lambda>g. rng_ex"]
  from i4 z wf_one_generation_ex [of 0]
  have c4: "wf msprime_ex args_ex 1 (init_simplifier 0) init_tracker [] 2 (\<lambda>g. rng_ex)
        = Inl ZeroDivisionError"
    by simp
  note i5 = degenerate_interval [where a = "args_ex\<lparr>gc := 0\<rparr>" and ms = msprime_ex
      and rng = "\<lambda>g. rng_ex" and rng_final = rng_ex]
  from i5 z have c5: "isl (main msprime_ex (args_ex\<lparr>gc := 0\<rparr>) (\<lambda>g. rng_ex) rng_ex)"
    by simp
  have w: "wf msprime_ex args_ex 1 (init_simplifier (- 3)) init_tracker [] 2 (\<lambda>g. rng_ex)
        = Inr (state_gen1 (- 3))"
    by (rule wf_two_generations_ex) simp
  note i6 = degenerate_interval [where s = "init_simplifier (- 3)" and ms = msprime_ex
      and a = args_ex and tr = init_tracker and N = 1 and sched = "[]" and ngens = 2
      and rng = "\<lambda>g. rng_ex" and st = "state_gen1 (- 3)"]
  from i6 w have f: "nodes (tracker_of (state_gen1 (- 3))) \<noteq> []
       \<and> final_flush msprime_ex args_ex 2 (simplifier_of (state_gen1 (- 3)))
              (tracker_of (state_gen1 (- 3))) =
          (case simplify msprime_ex args_ex (simplifier_of (state_gen1 (- 3))) 2
                  (tracker_of (state_gen1 (- 3))) of
             Inl e \<Rightarrow> Inl e
           | Inr (s', tr', n) \<Rightarrow> Inr (s', tr'))"
    by simp
  then have c6: "(case final_flush msprime_ex args_ex 2 (simplifier_of (state_gen1 (- 3)))
              (tracker_of (state_gen1 (- 3))) of
        Inl e \<Rightarrow> False
      | Inr (s', tr') \<Rightarrow> length (table_nodes s') = 2 \<and> anc_samples tr' = [])"
    by (simp add: simplify_gen2_ex)
  from f have c7: "nodes (tracker_of (state_gen1 (- 3))) \<noteq> []" by simp
  from c1 c2 c3 c4 c5 w c7 c6 show ?thesis by simp
qed

lemma wf_body_gen2_ex:
  "wf_body msprime_ex args_ex 1 [] rng_ex 2 (state_gen1 2) =
     Inr \<lparr>simplifier_of = simplifier_gen2,
          tracker_of =
            \<lparr>nodes = [\<lparr>id_n = 2, generation = 3, population = 0\<rparr>,
                      \<lparr>id_n = 3, generation = 3, population = 0\<rparr>],
             edges = [\<lparr>left = 0, right = 1, parent = 0, child = 2\<rparr>,
                      \<lparr>left = 0, right = 1, parent = 0, child = 3\<rparr>],
             samples = [2, 3], anc_samples = [], anc_dtype = Float64\<rparr>,
          diploids = [2, 3], next_id = 4, ancestral_gen_counter = 0\<rparr>"
proof -
  have g: "gc_interval (simplifier_of (state_gen1 2)) = 2"
    by (simp add: state_gen1_def)
  have c: "call msprime_ex args_ex (simplifier_of (state_gen1 2)) 2 (tracker_of (state_gen1 2)) =
     Inr (simplifier_gen2,
          \<lparr>nodes = [\<lparr>id_n = 2, generation = 0, population = 0\<rparr>,
                    \<lparr>id_n = 3, generation = 0, population = 0\<rparr>],
           edges = [\<lparr>left = 0, right = 1, parent = 0, child = 2\<rparr>,
                    \<lparr>left = 0, right = 1, parent = 0, child = 3\<rparr>],
           samples = [2, 3], anc_samples = [], anc_dtype = Float64\<rparr>, (True, Some 2))"
    unfolding call_def g by (simp add: simplify_gen2_ex simplifier_gen2_def)
  show ?thesis
    apply (simp add: wf_body_def c reset_ids_def ancestral_sampling_def
      rng_ex_randint replicate_2 offspring_ex arange_uint32_ex post_gc_cleanup_def
      del: offspring.simps)
    apply (simp add: state_gen1_def update_data_def reset_data_def as_edge_dt_def
      as_int32_def wrap_int32_def wrap_uint32_def)
    done
qed

lemma wf_body_gen3_ex:
  "wf_body msprime_ex args_ex 1 [] rng_ex 3
     \<lparr>simplifier_of = simplifier_gen2,
          tracker_of =
            \<lparr>nodes = [\<lparr>id_n = 2, generation = 3, population = 0\<rparr>,
                      \<lparr>id_n = 3, generation = 3, population = 0\<rparr>],
             edges = [\<lparr>left = 0, right = 1, parent = 0, child = 2\<rparr>,
                      \<lparr>left = 0, right = 1, parent = 0, child = 3\<rparr>],
             samples = [2, 3], anc_samples = [], anc_dtype = Float64\<rparr>,
          diploids = [2, 3], next_id = 4, ancestral_gen_counter = 0\<rparr> = Inr state_gen3"
proof -
  have c: "call msprime_ex args_ex simplifier_gen2 3 tr = Inr (simplifier_gen2, tr, (False, None))" for tr
    by (simp add: call_def simplifier_gen2_def)
  show ?thesis
    apply (simp add: wf_body_def c reset_ids_def ancestral_sampling_def
      rng_ex_randint replicate_2 offspring_ex arange_uint32_ex post_gc_cleanup_def
      del: offspring.simps)
    apply (simp add: state_gen3_def tracker_gen3_def update_data_def as_edge_dt_def
      as_int32_def wrap_int32_def wrap_uint32_def astype_def)
    done
qed

lemma wf_body_gen4_ex:
  "wf_body msprime_ex args_ex 1 [] rng_ex 4 state_gen3 =
     Inr \<lparr>simplifier_of = simplifier_gen2\<lparr>last_gc_time := 4\<rparr>,
          tracker_of =
            \<lparr>nodes = [\<lparr>id_n = 2, generation = 5, population = 0\<rparr>,
                      \<lparr>id_n = 3, generation = 5, population = 0\<rparr>],
             edges = [\<lparr>left = 0, right = 1, parent = 0, child = 2\<rparr>,
                      \<lparr>left = 0, right = 1, parent = 0, child = 3\<rparr>],
             samples = [2, 3], anc_samples = [], anc_dtype = Float64\<rparr>,
          diploids = [2, 3], next_id = 4, ancestral_gen_counter = 0\<rparr>"
proof -
  have s: "simplifier_gen2 = simplifier_gen2\<lparr>gc_interval := 2\<rparr>"
    by (simp add: simplifier_gen2_def)
  have c: "call msprime_ex args_ex simplifier_gen2 4 tracker_gen3 =
     Inr (simplifier_gen2\<lparr>last_gc_time := 4\<rparr>,
          tracker_gen3\<lparr>nodes := [\<lparr>id_n = 2, generation = 1, population = 0\<rparr>,
               \<lparr>id_n = 3, generation = 1, population = 0\<rparr>,
               \<lparr>id_n = 4, generation = 0, population = 0\<rparr>,
               \<lparr>id_n = 5, generation = 0, population = 0\<rparr>]\<rparr>, (True, Some 2))"
    apply (subst call_def)
    apply (subst (3) s)
    apply (simp add: simplify_gen4_ex)
    apply (simp add: simplifier_gen2_def)
    done
  show ?thesis
    apply (simp add: wf_body_def state_gen3_def c reset_ids_def ancestral_sampling_def
      rng_ex_randint replicate_2 offspring_ex arange_uint32_ex post_gc_cleanup_def
      del: offspring.simps)
    apply (simp add: tracker_gen3_def update_data_def reset_data_def as_edge_dt_def
      as_int32_def wrap_int32_def wrap_uint32_def astype_def)
    done
qed

lemma upt_4: "map int [0 ..< 4] = [0, 1, 2, 3]" "map int [0 ..< 5] = [0, 1, 2, 3, 4]"
  by (simp_all add: upt_conv_Cons)

lemma wf_four_generations_ex:
  "wf msprime_ex args_ex 1 (init_simplifier 2) init_tracker [] 4 (\<lambda>g. rng_ex) = Inr state_gen3"
proof -
  have t: "init_tracker\<lparr>nodes := []\<rparr> = init_tracker"
    by (simp add: init_tracker_def)
  have b1: "wf_body msprime_ex args_ex 1 [] rng_ex 1
      \<lparr>simplifier_of = init_simplifier 2, tracker_of = tracker_gen0\<lparr>anc_samples := []\<rparr>,
        diploids = [2, 3], next_id = 4, ancestral_gen_counter = 0\<rparr> = Inr (state_gen1 2)"
    by (rule wf_body_gen1_ex) simp
  show ?thesis
    by (simp add: wf_def upt_4 arange_uint32_ex t wf_body_gen0_ex b1 wf_body_gen2_ex wf_body_gen3_ex)
qed

lemma wf_five_generations_ex:
  "wf msprime_ex args_ex 1 (init_simplifier 2) init_tracker [] 5 (\<lambda>g. rng_ex) =
     wf_body msprime_ex args_ex 1 [] rng_ex 4 state_gen3"
proof -
  have t: "init_tracker\<lparr>nodes := []\<rparr> = init_tracker"
    by (simp add: init_tracker_def)
  have b1: "wf_body msprime_ex args_ex 1 [] rng_ex 1
      \<lparr>simplifier_of = init_simplifier 2, tracker_of = tracker_gen0\<lparr>anc_samples := []\<rparr>,
        diploids = [2, 3], next_id = 4, ancestral_gen_counter = 0\<rparr> = Inr (state_gen1 2)"
    by (rule wf_body_gen1_ex) simp
  show ?thesis
    by (simp add: wf_def upt_4 arange_uint32_ex t wf_body_gen0_ex b1 wf_body_gen2_ex wf_body_gen3_ex
        split: sum.splits)
qed

text \<open>
  C5 as stated fails: from \<open>next_id = 4294967296\<close> the generation returns
  normally, the ids 4294967296 and 4294967297 are stored as 0 and 1 in the node ids
  and the sample array; and in the run of one diploid with interval 2 \<open>next_id\<close>
  is 6 after four generations and 4 after five, the compaction of generation 4
  having reset it.
\<close>

theorem wf_body_next_id_wraps_counterexample:
  "(case wf_body msprime_ex args_ex 1 [] rng_ex 3 (state_ex\<lparr>next_id := 4294967296\<rparr>) of
      Inl e \<Rightarrow> False
    | Inr st' \<Rightarrow>
        map id_n (drop (length (nodes tracker_gen0)) (nodes (tracker_of st'))) = [0, 1]
      \<and> diploids st' = [0, 1]
      \<and> samples (tracker_of st') = [0, 1]
      \<and> next_id st' = 4294967298)
   \<and> (case wf msprime_ex args_ex 1 (init_simplifier 2) init_tracker [] 4 (\<lambda>g. rng_ex) of
        Inl e \<Rightarrow> False
      | Inr st' \<Rightarrow> next_id st' = 6)
   \<and> (case wf msprime_ex args_ex 1 (init_simplifier 2) init_tracker [] 5 (\<lambda>g. rng_ex) of
        Inl e \<Rightarrow> False
      | Inr st' \<Rightarrow> next_id st' = 4)"
proof -
  have "next_id state_gen3 = 6" by (simp add: state_gen3_def)
  then show ?thesis
    by (simp add: wf_body_state_ex wf_four_generations_ex wf_five_generations_ex wf_body_gen4_ex
        wrap_uint32_def tracker_gen0_def)
qed

end
